theory Spec2Isabelle
  imports Main "HOL-Library.Sublist" "HOL-Library.Multiset" "HOL-Library.Word"
begin

section \<open>Python values used by app.py\<close>

text \<open>
  Python strings are modelled as \<^typ>\<open>string\<close>; one \<^typ>\<open>char\<close> stands for one code
  point below 256. Exceptions that app.py can raise on the paths modelled here are values
  of \<open>py_error\<close>; a computation that may raise returns \<open>py_error + 'a\<close>.
\<close>

datatype py_error = TypeError | IndexError | KeyError | ValueError | TimeoutError | OSError

fun bind_err :: "py_error + 'a \<Rightarrow> ('a \<Rightarrow> py_error + 'b) \<Rightarrow> py_error + 'b" where
  "bind_err (Inl e) f = Inl e"
| "bind_err (Inr x) f = f x"

text \<open>\<open>xs[i]\<close> for a non-negative literal index: IndexError out of range.\<close>

definition index :: "'a list \<Rightarrow> nat \<Rightarrow> py_error + 'a" where
  "index xs i = (if i < length xs then Inr (xs ! i) else Inl IndexError)"

text \<open>\<open>sep in s\<close> on strings: \<open>sep\<close> occurs in \<open>s\<close> as a contiguous substring.\<close>

fun contains :: "string \<Rightarrow> string \<Rightarrow> bool" where
  "contains sep [] = (sep = [])"
| "contains sep (c # cs) = (prefix sep (c # cs) \<or> contains sep cs)"

text \<open>
  The leftmost occurrence of \<open>sep\<close> in \<open>s\<close>, as \<open>str.split\<close> finds it: the text before
  it and the text after it, or \<open>None\<close> when \<open>sep\<close> does not occur.
\<close>

fun find_sep :: "string \<Rightarrow> string \<Rightarrow> (string \<times> string) option" where
  "find_sep sep [] = (if sep = [] then Some ([], []) else None)"
| "find_sep sep (c # cs) =
     (if prefix sep (c # cs) then Some ([], drop (length sep) (c # cs))
      else (case find_sep sep cs of None \<Rightarrow> None | Some (p, r) \<Rightarrow> Some (c # p, r)))"

lemma find_sep_shorter:
  "find_sep sep s = Some (p, r) \<Longrightarrow> sep \<noteq> [] \<Longrightarrow> length r < length s"
proof (induction s arbitrary: p r)
  case Nil
  then show ?case by simp
next
  case (Cons c cs)
  show ?case
  proof (cases "prefix sep (c # cs)")
    case True
    with Cons.prems show ?thesis by auto
  next
    case False
    with Cons.prems obtain p' where "find_sep sep cs = Some (p', r)"
      by (auto split: option.splits)
    with Cons.IH [of p' r] Cons.prems(2) show ?thesis by simp
  qed
qed

text \<open>
  \<open>s.split(sep)\<close> with a non-empty separator: cut at every leftmost, non-overlapping
  occurrence. (Python raises ValueError for an empty separator; app.py only passes the
  literals \<open>"v="\<close>, \<open>"youtu.be/"\<close>, \<open>"shorts/"\<close>, \<open>"&"\<close> and \<open>"?"\<close>.)
\<close>

function split :: "string \<Rightarrow> string \<Rightarrow> string list" where
  "split sep s =
     (if sep = [] then [s]
      else (case find_sep sep s of None \<Rightarrow> [s] | Some (p, r) \<Rightarrow> p # split sep r))"
  by pat_completeness auto
termination
  by (relation "measure (\<lambda>(sep, s). length s)") (auto dest: find_sep_shorter)

declare split.simps [simp del]

section \<open>extract\_video\_id\<close>

text \<open>
  \<open>link\<close> is what \<open>request.form.get("link")\<close> returns: \<open>None\<close> when the form has no such
  field. The membership test \<open>"v=" in link\<close> raises TypeError on \<open>None\<close>. The function
  returns \<open>None\<close> when no marker occurs.
\<close>

definition extract_video_id :: "string option \<Rightarrow> py_error + string option" where
  "extract_video_id link =
     (case link of
        None \<Rightarrow> Inl TypeError
      | Some l \<Rightarrow>
          if contains ''v='' l then
            bind_err (index (split ''v='' l) 1) (\<lambda>a.
            bind_err (index (split ''&'' a) 0) (\<lambda>b. Inr (Some b)))
          else if contains ''youtu.be/'' l then
            bind_err (index (split ''youtu.be/'' l) 1) (\<lambda>a.
            bind_err (index (split ''?'' a) 0) (\<lambda>b. Inr (Some b)))
          else if contains ''shorts/'' l then
            bind_err (index (split ''shorts/'' l) 1) (\<lambda>a.
            bind_err (index (split ''?'' a) 0) (\<lambda>b. Inr (Some b)))
          else Inr None)"

section \<open>The external services\<close>

text \<open>
  Every call that leaves the process is recorded, in order, in a list of \<open>call\<close>: the
  two YouTube requests with their parameters, the inference pipeline with its input text
  and the word-cloud generator with its input text.
\<close>

datatype call =
    Videos_list string
  | Comment_threads_list string "string option"
  | Sentiment_pipeline string
  | WordCloud_generate string

text \<open>
  \<open>request.execute()\<close> returns the decoded response or raises: HttpError, which both
  callers catch, or another exception (a timeout, a connection error), which they do not.
\<close>

datatype 'a executed = HttpError | Raises py_error | Returned 'a

record raw_item =
  textDisplay :: string
  likeCount :: "int option"

record comment_page =
  items :: "raw_item list option"
  nextPageToken :: "string option"

record video_item =
  snippet_title :: string
  stat_viewCount :: "int option"
  stat_likeCount :: "int option"
  stat_commentCount :: "int option"

text \<open>
  The world outside: the answer of \<open>videos().list\<close> for a video id, the answers of
  \<open>commentThreads().list\<close> for a video id in the order in which successive requests
  receive them, the label the sentiment pipeline returns for a text, the PNG bytes of
  the word cloud of a text or the exception the generator raises for it (ValueError when
  the text has no word to plot), and whether the document builder can read given bytes as
  an image.
\<close>

record world =
  videos :: "string \<Rightarrow> video_item list executed"
  commentThreads :: "string \<Rightarrow> comment_page executed list"
  sentiment_pipeline :: "string \<Rightarrow> string"
  wordcloud_png :: "string \<Rightarrow> py_error + 8 word list"
  readable_image :: "8 word list \<Rightarrow> bool"

section \<open>get\_video\_stats\<close>

record video_stats =
  title :: string
  views :: int
  likes :: int
  comments_count :: int

definition get_video_stats ::
  "world \<Rightarrow> string \<Rightarrow> (py_error + video_stats option) \<times> call list" where
  "get_video_stats w video_id =
     ((case videos w video_id of
         HttpError \<Rightarrow> Inr None
       | Raises e \<Rightarrow> Inl e
       | Returned its \<Rightarrow>
           (case its of
              [] \<Rightarrow> Inr None
            | it # _ \<Rightarrow>
                Inr (Some \<lparr>title = snippet_title it,
                      views = (case stat_viewCount it of None \<Rightarrow> 0 | Some n \<Rightarrow> n),
                      likes = (case stat_likeCount it of None \<Rightarrow> 0 | Some n \<Rightarrow> n),
                      comments_count =
                        (case stat_commentCount it of None \<Rightarrow> 0 | Some n \<Rightarrow> n)\<rparr>))),
      [Videos_list video_id])"

section \<open>get\_comments\<close>

type_synonym comment = "string \<times> int"

definition MAX_COMMENTS :: nat where
  "MAX_COMMENTS = 20"

text \<open>A page token is falsy when it is absent or the empty string.\<close>

definition truthy :: "string option \<Rightarrow> bool" where
  "truthy t = (case t of None \<Rightarrow> False | Some s \<Rightarrow> s \<noteq> [])"

text \<open>
  The pair \<open>(comment_text, like_count)\<close> appended for an item, with the like count 0
  when the item has none. The inner \<open>for item in response.get("items", [])\<close>: \<open>Inl\<close>
  is the \<open>return comments\<close> inside the loop, \<open>Inr\<close> the list after the loop ran to
  its end.
\<close>

definition item_comment :: "raw_item \<Rightarrow> comment" where
  "item_comment item = (textDisplay item, case likeCount item of None \<Rightarrow> 0 | Some n \<Rightarrow> n)"

fun for_items :: "raw_item list \<Rightarrow> comment list \<Rightarrow> comment list + comment list" where
  "for_items [] comments = Inr comments"
| "for_items (item # rest) comments =
     (let comments' = comments @ [item_comment item]
      in if length comments' \<ge> MAX_COMMENTS then Inl comments' else for_items rest comments')"

text \<open>\<open>response.get("items", [])\<close>.\<close>

definition page_items :: "comment_page \<Rightarrow> raw_item list" where
  "page_items pg = (case items pg of None \<Rightarrow> [] | Some its \<Rightarrow> its)"

text \<open>
  The \<open>while True\<close> loop. Its first argument lists the answers the transport gives to
  the successive requests; \<open>None\<close> means the loop asks for a page beyond them, so the
  run does not finish within the answers given. \<open>Inr\<close> is the list the function
  returns, \<open>Inl\<close> the exception that leaves it.
\<close>

fun while_pages ::
  "string \<Rightarrow> comment_page executed list \<Rightarrow> string option \<Rightarrow> comment list \<Rightarrow> call list
     \<Rightarrow> ((py_error + comment list) \<times> call list) option" where
  "while_pages video_id [] next_page_token comments calls = None"
| "while_pages video_id (response # later) next_page_token comments calls =
     (let calls' = calls @ [Comment_threads_list video_id next_page_token] in
      case response of
        HttpError \<Rightarrow> Some (Inr [], calls')
      | Raises e \<Rightarrow> Some (Inl e, calls')
      | Returned page \<Rightarrow>
          (case for_items (page_items page) comments of
             Inl result \<Rightarrow> Some (Inr result, calls')
           | Inr comments' \<Rightarrow>
               if \<not> truthy (nextPageToken page) then Some (Inr comments', calls')
               else while_pages video_id later (nextPageToken page) comments' calls'))"

definition get_comments ::
  "world \<Rightarrow> string \<Rightarrow> ((py_error + comment list) \<times> call list) option" where
  "get_comments w video_id = while_pages video_id (commentThreads w video_id) None [] []"

section \<open>analyze\_sentiment\<close>

datatype sentiment = Positive | Negative | Neutral

text \<open>
  \<open>re.sub(r"<.*?>", "", comment)\<close>. At a \<open><\<close> the pattern matches up to the nearest
  \<open>>\<close>, unless a newline comes first (\<open>.\<close> does not match it): \<open>match_tag\<close> returns the
  text after that \<open>>\<close>. Matches are removed from left to right.
\<close>

fun match_tag :: "string \<Rightarrow> string option" where
  "match_tag [] = None"
| "match_tag (c # cs) =
     (if c = CHR ''>'' then Some cs
      else if c = CHR 0x0A then None
      else match_tag cs)"

lemma match_tag_shorter: "match_tag cs = Some r \<Longrightarrow> length r < Suc (length cs)"
  by (induction cs) (auto split: if_splits)

function strip_tags :: "string \<Rightarrow> string" where
  "strip_tags [] = []"
| "strip_tags (c # cs) =
     (if c = CHR ''<'' then
        (case match_tag cs of
           Some r \<Rightarrow> strip_tags r
         | None \<Rightarrow> c # strip_tags cs)
      else c # strip_tags cs)"
  by pat_completeness auto
termination
  by (relation "measure length") (auto dest: match_tag_shorter)

text \<open>\<open>str.isspace\<close> on the code points below 256, and \<open>str.strip()\<close>.\<close>

definition isspace :: "char \<Rightarrow> bool" where
  "isspace c = ((of_char c :: nat) \<in> {9, 10, 11, 12, 13, 28, 29, 30, 31, 32, 133, 160})"

definition strip :: "string \<Rightarrow> string" where
  "strip s = rev (dropWhile isspace (rev (dropWhile isspace s)))"

text \<open>
  \<open>str.upper\<close>: the letters a to z become A to Z. The other code points below 256 are
  left as they are; Python maps none of them to a letter A to Z other than S, which
  occurs in neither word tested below.
\<close>

definition upper_char :: "char \<Rightarrow> char" where
  "upper_char c =
     (case map_of (zip ''abcdefghijklmnopqrstuvwxyz'' ''ABCDEFGHIJKLMNOPQRSTUVWXYZ'') c of
        Some u \<Rightarrow> u
      | None \<Rightarrow> c)"

definition upper :: "string \<Rightarrow> string" where
  "upper s = map upper_char s"

definition analyze_sentiment :: "world \<Rightarrow> string \<Rightarrow> sentiment \<times> call list" where
  "analyze_sentiment w comment =
     (let comment = strip_tags comment in
      if strip comment = [] then (Neutral, [])
      else
        (let label = upper (sentiment_pipeline w (take 256 comment));
             calls = [Sentiment_pipeline (take 256 comment)]
         in if contains ''NEGATIVE'' label then (Negative, calls)
            else if contains ''NEUTRAL'' label then (Neutral, calls)
            else (Positive, calls)))"

section \<open>The home route\<close>

text \<open>
  The local variables of \<open>home\<close>, which are also the arguments it hands to the
  template.
\<close>

record locals =
  positive :: nat
  negative :: nat
  neutral :: nat
  positive_comments :: "string list"
  negative_comments :: "string list"
  neutral_comments :: "string list"
  top_liked_comments :: "comment list"
  video_stats :: "video_stats option"
  error_message :: string

text \<open>
  The global \<open>report_data\<close> is a dict with string keys: an association list in
  insertion order, \<open>[]\<close> for the initial \<open>{}\<close>.
\<close>

datatype pyval = Stats video_stats | Count nat | Bytes "8 word list"

type_synonym report = "(string \<times> pyval) list"

definition initial_report_data :: report where
  "initial_report_data = []"

record request =
  request_method :: string
  form_link :: "string option"

text \<open>
  What \<open>render_template\<close> is called with: the early return passes \<open>error_message\<close>
  alone, the final return passes every local.
\<close>

datatype rendered = Index_error_only string | Index locals

text \<open>
  One run of a route: what it returns (or the exception that leaves it), the value of
  the global \<open>report_data\<close> afterwards, and the external calls it made.
\<close>

record outcome =
  page :: "py_error + rendered"
  report_data :: report
  trace :: "call list"

text \<open>
  \<open>sorted(xs, key=..., reverse=True)\<close>: Python's sort is stable, and with
  \<open>reverse=True\<close> elements with equal keys still keep their original order.
\<close>

definition sorted_reverse :: "('a \<Rightarrow> int) \<Rightarrow> 'a list \<Rightarrow> 'a list" where
  "sorted_reverse key xs = sort_key (\<lambda>x. - key x) xs"

text \<open>The loop \<open>for comment, like_count in comments_data\<close>.\<close>

fun for_comments ::
  "world \<Rightarrow> comment list \<Rightarrow> locals \<times> string \<times> call list \<Rightarrow> locals \<times> string \<times> call list" where
  "for_comments w [] st = st"
| "for_comments w ((comment, like_count) # rest) (v, all_text, tr) =
     (let (sentiment, cs) = analyze_sentiment w comment;
          all_text = all_text @ '' '' @ comment;
          v = (if sentiment = Positive then
                 v\<lparr>positive := positive v + 1,
                   positive_comments := positive_comments v @ [comment]\<rparr>
               else if sentiment = Negative then
                 v\<lparr>negative := negative v + 1,
                   negative_comments := negative_comments v @ [comment]\<rparr>
               else
                 v\<lparr>neutral := neutral v + 1,
                   neutral_comments := neutral_comments v @ [comment]\<rparr>)
      in for_comments w rest (v, all_text, tr @ cs))"

text \<open>
  The body of \<open>if comments_data:\<close>, entered with a non-empty list: the locals after it,
  the dict it assigns to \<open>report_data\<close>, or the exception the word-cloud generator
  raises before the assignment, and the calls made. (The creation of the directory
  \<open>static\<close> is left out.)
\<close>

definition analysis ::
  "world \<Rightarrow> video_stats \<Rightarrow> comment list \<Rightarrow> locals
     \<Rightarrow> locals \<times> (py_error + report) \<times> call list" where
  "analysis w vs comments_data v0 =
     (let (v, all_text, tr) = for_comments w comments_data (v0, [], []);
          v = v\<lparr>top_liked_comments := take 5 (sorted_reverse snd comments_data)\<rparr>;
          all_text = (if strip all_text = [] then ''No comments available'' else all_text)
      in (v,
          (case wordcloud_png w all_text of
             Inl e \<Rightarrow> Inl e
           | Inr wordcloud_image \<Rightarrow>
               Inr [(''video_stats'', Stats vs),
                    (''positive'', Count (positive v)),
                    (''negative'', Count (negative v)),
                    (''neutral'', Count (neutral v)),
                    (''wordcloud_image'', Bytes wordcloud_image)]),
          tr @ [WordCloud_generate all_text]))"

definition initial_locals :: locals where
  "initial_locals =
     \<lparr>positive = 0, negative = 0, neutral = 0,
      positive_comments = [], negative_comments = [], neutral_comments = [],
      top_liked_comments = [], video_stats = None, error_message = []\<rparr>"

text \<open>
  \<open>home\<close>, given the world, the request and the value of \<open>report_data\<close> before.
  \<open>not video_id\<close> holds for \<open>None\<close> and for the empty string: both take the branch
  \<open>invalid_link\<close>. An exception leaves the route with \<open>report_data\<close> as it was.
  \<open>None\<close> as a result means that comment collection does not finish within the answers
  the world lists.
\<close>

definition home :: "world \<Rightarrow> request \<Rightarrow> report \<Rightarrow> outcome option" where
  "home w req rd =
     (let v = initial_locals;
          invalid_link =
            Some \<lparr>page = Inr (Index (v\<lparr>error_message := ''Invalid YouTube Link!''\<rparr>)),
                  report_data = rd, trace = []\<rparr>
      in
      if request_method req = ''POST'' then
        (case extract_video_id (form_link req) of
           Inl e \<Rightarrow> Some \<lparr>page = Inl e, report_data = rd, trace = []\<rparr>
         | Inr None \<Rightarrow> invalid_link
         | Inr (Some video_id) \<Rightarrow>
             if video_id = [] then invalid_link
             else
               (case get_video_stats w video_id of
                  (Inl e, tr1) \<Rightarrow> Some \<lparr>page = Inl e, report_data = rd, trace = tr1\<rparr>
                | (Inr None, tr1) \<Rightarrow>
                    Some \<lparr>page = Inr (Index_error_only ''Unable to fetch video details.''),
                          report_data = rd, trace = tr1\<rparr>
                | (Inr (Some vs), tr1) \<Rightarrow>
                    (case get_comments w video_id of
                       None \<Rightarrow> None
                     | Some (Inl e, tr2) \<Rightarrow>
                         Some \<lparr>page = Inl e, report_data = rd, trace = tr1 @ tr2\<rparr>
                     | Some (Inr comments_data, tr2) \<Rightarrow>
                         (let v = v\<lparr>video_stats := Some vs\<rparr> in
                          if comments_data \<noteq> [] then
                            (case analysis w vs comments_data v of
                               (v, Inl e, tr3) \<Rightarrow>
                                 Some \<lparr>page = Inl e, report_data = rd,
                                       trace = tr1 @ tr2 @ tr3\<rparr>
                             | (v, Inr written, tr3) \<Rightarrow>
                                 Some \<lparr>page = Inr (Index v), report_data = written,
                                       trace = tr1 @ tr2 @ tr3\<rparr>)
                          else
                            Some \<lparr>page = Inr (Index v), report_data = rd,
                                  trace = tr1 @ tr2\<rparr>))))
      else Some \<lparr>page = Inr (Index v), report_data = rd, trace = []\<rparr>)"

section \<open>The download route\<close>

text \<open>\<open>html.escape\<close> with its default \<open>quote=True\<close>.\<close>

definition html_escape :: "string \<Rightarrow> string" where
  "html_escape s =
     concat (map (\<lambda>c. if c = CHR ''&'' then ''&amp;''
                       else if c = CHR ''<'' then ''&lt;''
                       else if c = CHR ''>'' then ''&gt;''
                       else if c = CHR 0x22 then ''&quot;''
                       else if c = CHR 0x27 then ''&#x27;''
                       else [c]) s)"

text \<open>\<open>d[k]\<close> on the dict: KeyError when the key is missing.\<close>

definition lookup :: "report \<Rightarrow> string \<Rightarrow> py_error + pyval" where
  "lookup d k = (case map_of d k of None \<Rightarrow> Inl KeyError | Some x \<Rightarrow> Inr x)"

text \<open>
  What the route puts into the document, in the order it reads it from
  \<open>report_data\<close>; the layout of the PDF is outside the model.
\<close>

record document =
  safe_title :: string
  shown_views :: int
  shown_likes :: int
  shown_comments_count :: int
  shown_positive :: pyval
  shown_negative :: pyval
  shown_neutral :: pyval
  shown_image :: "8 word list option"

datatype download = No_report_available | Pdf document

text \<open>
  The image block: absent when the dict has no key \<open>wordcloud_image\<close>. \<open>BytesIO\<close>
  raises TypeError for a value that is not bytes, and the document builder raises when
  it cannot read the bytes as an image.
\<close>

definition image_block :: "world \<Rightarrow> report \<Rightarrow> py_error + 8 word list option" where
  "image_block w rd =
     (case map_of rd ''wordcloud_image'' of
        None \<Rightarrow> Inr None
      | Some (Bytes b) \<Rightarrow> if readable_image w b then Inr (Some b) else Inl OSError
      | Some _ \<Rightarrow> Inl TypeError)"

text \<open>
  \<open>download_report\<close>: \<open>not report_data\<close> holds for the empty dict and gives the plain
  text \<open>"No report available."\<close>.
\<close>

definition download_report :: "world \<Rightarrow> report \<Rightarrow> py_error + download" where
  "download_report w rd =
     (if rd = [] then Inr No_report_available
      else
        bind_err (lookup rd ''video_stats'') (\<lambda>x.
          case x of
            Stats vs \<Rightarrow>
              bind_err (lookup rd ''positive'') (\<lambda>p.
              bind_err (lookup rd ''negative'') (\<lambda>n.
              bind_err (lookup rd ''neutral'') (\<lambda>u.
              bind_err (image_block w rd) (\<lambda>img.
                Inr (Pdf \<lparr>safe_title = html_escape (title vs),
                          shown_views = views vs,
                          shown_likes = likes vs,
                          shown_comments_count = comments_count vs,
                          shown_positive = p,
                          shown_negative = n,
                          shown_neutral = u,
                          shown_image = img\<rparr>)))))
          | _ \<Rightarrow> Inl TypeError))"

section \<open>Vocabulary for the properties\<close>

text \<open>
  Of one answer of the comment transport: the comments its items stand for, whether it
  is a page that carries a next-page token, and that token.
\<close>

definition page_comments :: "comment_page executed \<Rightarrow> comment list" where
  "page_comments r = (case r of Returned pg \<Rightarrow> map item_comment (page_items pg) | _ \<Rightarrow> [])"

definition has_next :: "comment_page executed \<Rightarrow> bool" where
  "has_next r = (case r of Returned pg \<Rightarrow> truthy (nextPageToken pg) | _ \<Rightarrow> False)"

definition next_token :: "comment_page executed \<Rightarrow> string option" where
  "next_token r = (case r of Returned pg \<Rightarrow> nextPageToken pg | _ \<Rightarrow> None)"

text \<open>
  Worlds for the concrete runs below: the generator has a word to plot when the text has
  a lower-case letter.
\<close>

definition plain_item :: "string \<Rightarrow> raw_item" where
  "plain_item t = \<lparr>textDisplay = t, likeCount = None\<rparr>"

definition liked_item :: "string \<Rightarrow> int \<Rightarrow> raw_item" where
  "liked_item t n = \<lparr>textDisplay = t, likeCount = Some n\<rparr>"

definition world_of :: "video_item list executed \<Rightarrow> comment_page executed list \<Rightarrow> world" where
  "world_of v script =
     \<lparr>videos = (\<lambda>_. v), commentThreads = (\<lambda>_. script),
      sentiment_pipeline = (\<lambda>t. if contains ''bad'' t then ''negative''
                                 else if contains ''ok'' t then ''neutral'' else ''positive''),
      wordcloud_png = (\<lambda>t. if list_ex (\<lambda>c. c \<in> set ''abcdefghijklmnopqrstuvwxyz'') t
                            then Inr [of_nat (length t)] else Inl ValueError),
      readable_image = (\<lambda>b. b \<noteq> [])\<rparr>"

definition short_script :: "comment_page executed list" where
  "short_script =
     [Returned \<lparr>items = Some [liked_item ''first'' 4, plain_item ''second''], nextPageToken = Some ''T1''\<rparr>,
      Returned \<lparr>items = None, nextPageToken = Some ''T2''\<rparr>,
      Returned \<lparr>items = Some [plain_item ''third''], nextPageToken = None\<rparr>,
      Returned \<lparr>items = Some [plain_item ''never fetched''], nextPageToken = None\<rparr>]"

definition long_script :: "comment_page executed list" where
  "long_script =
     [Returned \<lparr>items = Some (replicate 15 (plain_item ''a'')), nextPageToken = Some ''T1''\<rparr>,
      Returned \<lparr>items = Some (replicate 10 (liked_item ''b'' 2)), nextPageToken = Some ''T2''\<rparr>,
      HttpError]"

definition faulting_script :: "comment_page executed list" where
  "faulting_script =
     [Returned \<lparr>items = Some [liked_item ''nice'' 3], nextPageToken = Some ''T1''\<rparr>,
      HttpError,
      Returned \<lparr>items = Some [plain_item ''late''], nextPageToken = None\<rparr>]"

definition timeout_script :: "comment_page executed list" where
  "timeout_script =
     [Returned \<lparr>items = Some [liked_item ''nice'' 3], nextPageToken = Some ''T1''\<rparr>,
      Raises TimeoutError,
      Returned \<lparr>items = Some [plain_item ''late''], nextPageToken = None\<rparr>]"

text \<open>The label the loop of \<open>home\<close> obtains for a collected comment.\<close>

definition label_of :: "world \<Rightarrow> comment \<Rightarrow> sentiment" where
  "label_of w c = fst (analyze_sentiment w (fst c))"

text \<open>Comments for the concrete selection below.\<close>

definition liked_sample :: "comment list" where
  "liked_sample =
     [(''a'', 5), (''b'', 5), (''c'', 3), (''d'', 10), (''e'', 1), (''f'', 5), (''g'', 0)]"

text \<open>
  The text \<open>home\<close> hands to the word-cloud generator for the collected comments: every
  raw comment text preceded by a space, or the placeholder when that is all white space.
\<close>

definition cloud_text :: "comment list \<Rightarrow> string" where
  "cloud_text cd =
     (let t = concat (map (\<lambda>c. '' '' @ fst c) cd)
      in if strip t = [] then ''No comments available'' else t)"

text \<open>The keys of the dict a completed run assigns to \<open>report_data\<close>.\<close>

definition report_keys :: "string list" where
  "report_keys = [''video_stats'', ''positive'', ''negative'', ''neutral'', ''wordcloud_image'']"

text \<open>Requests and worlds for the concrete runs of the routes.\<close>

definition post :: "string option \<Rightarrow> request" where
  "post link = \<lparr>request_method = ''POST'', form_link = link\<rparr>"

definition one_video :: "video_item list executed" where
  "one_video =
     Returned [\<lparr>snippet_title = ''A & B'', stat_viewCount = Some 7, stat_likeCount = None,
                stat_commentCount = Some 2\<rparr>]"

definition two_comments :: "comment_page executed list" where
  "two_comments =
     [Returned \<lparr>items = Some [liked_item ''<b>ok</b>'' 1, plain_item ''so bad''],
               nextPageToken = None\<rparr>]"

definition one_comment :: "comment_page executed list" where
  "one_comment = [Returned \<lparr>items = Some [plain_item ''fine''], nextPageToken = None\<rparr>]"

definition no_word_comment :: "comment_page executed list" where
  "no_word_comment = [Returned \<lparr>items = Some [plain_item ''!!!''], nextPageToken = None\<rparr>]"

text \<open>
  Of a string and a separator: the text before the leftmost occurrence of the separator
  (the whole string when there is none), and the text after that occurrence.
\<close>

definition before_sep :: "string \<Rightarrow> string \<Rightarrow> string" where
  "before_sep sep s = (case find_sep sep s of None \<Rightarrow> s | Some (p, r) \<Rightarrow> p)"

definition after_sep :: "string \<Rightarrow> string \<Rightarrow> string" where
  "after_sep sep s = (case find_sep sep s of None \<Rightarrow> [] | Some (p, r) \<Rightarrow> r)"

section \<open>Comment collection\<close>

lemma page_comments_simps:
  "page_comments HttpError = []"
  "page_comments (Raises e) = []"
  "page_comments (Returned pg) = map item_comment (page_items pg)"
  by (simp_all add: page_comments_def)

lemma has_next_simps:
  "has_next HttpError = False"
  "has_next (Raises e) = False"
  "has_next (Returned pg) = truthy (nextPageToken pg)"
  by (simp_all add: has_next_def)

lemma next_token_simps:
  "next_token HttpError = None"
  "next_token (Raises e) = None"
  "next_token (Returned pg) = nextPageToken pg"
  by (simp_all add: next_token_def)

text \<open>
  Entered with fewer than the cap, the inner loop returns from the function exactly when
  the items of the page fill the cap, with the first 20 comments; otherwise it appends
  them all.
\<close>

lemma for_items_result:
  "length cs < MAX_COMMENTS \<Longrightarrow>
   for_items its cs =
     (if MAX_COMMENTS \<le> length cs + length its
      then Inl (take MAX_COMMENTS (cs @ map item_comment its))
      else Inr (cs @ map item_comment its))"
proof (induction its arbitrary: cs)
  case Nil
  then show ?case by simp
next
  case (Cons it its)
  show ?case
  proof (cases "MAX_COMMENTS \<le> Suc (length cs)")
    case True
    with Cons.prems have "Suc (length cs) = MAX_COMMENTS" by simp
    moreover from this have "MAX_COMMENTS - length cs = Suc 0" by arith
    ultimately show ?thesis by (simp add: Let_def)
  next
    case False
    then have "length (cs @ [item_comment it]) < MAX_COMMENTS" by simp
    from Cons.IH [OF this] False show ?thesis by (simp add: Let_def)
  qed
qed

lemma while_pages_step:
  assumes "truthy (nextPageToken q)"
      and "length cs + length (page_items q) < MAX_COMMENTS"
  shows "while_pages vid (Returned q # later) tok cs tr =
         while_pages vid later (nextPageToken q)
           (cs @ map item_comment (page_items q)) (tr @ [Comment_threads_list vid tok])"
proof -
  from assms(2) have "length cs < MAX_COMMENTS" by simp
  from for_items_result [OF this, of "page_items q"] assms(2)
  have "for_items (page_items q) cs = Inr (cs @ map item_comment (page_items q))" by simp
  with assms(1) show ?thesis by (simp add: Let_def)
qed

lemma while_pages_run:
  assumes "\<forall>r\<in>set ps. has_next r"
      and "length (cs @ concat (map page_comments ps)) < MAX_COMMENTS"
      and "\<not> truthy (nextPageToken pg) \<or>
           MAX_COMMENTS \<le> length (cs @ concat (map page_comments (ps @ [Returned pg])))"
  shows "while_pages vid (ps @ Returned pg # rest) tok cs tr =
           Some (Inr (take MAX_COMMENTS (cs @ concat (map page_comments (ps @ [Returned pg])))),
                 tr @ map (Comment_threads_list vid) (tok # map next_token ps))"
  using assms
proof (induction ps arbitrary: tok cs tr)
  case Nil
  then have "length cs < MAX_COMMENTS" by simp
  from for_items_result [OF this, of "page_items pg"] Nil.prems(3)
  show ?case
    by (auto simp: page_comments_simps Let_def)
next
  case (Cons p ps)
  from Cons.prems(1) obtain q where p: "p = Returned q" and q: "truthy (nextPageToken q)"
    by (cases p) (auto simp: has_next_simps)
  from Cons.prems(2) have fit: "length cs + length (page_items q) < MAX_COMMENTS"
    by (auto simp: p page_comments_simps)
  have "while_pages vid ((p # ps) @ Returned pg # rest) tok cs tr =
        while_pages vid (ps @ Returned pg # rest) (nextPageToken q)
          (cs @ map item_comment (page_items q)) (tr @ [Comment_threads_list vid tok])"
    using while_pages_step [OF q fit] by (simp add: p)
  also have "\<dots> =
      Some (Inr (take MAX_COMMENTS ((cs @ map item_comment (page_items q)) @
                                    concat (map page_comments (ps @ [Returned pg])))),
            (tr @ [Comment_threads_list vid tok]) @
            map (Comment_threads_list vid) (nextPageToken q # map next_token ps))"
    using Cons.prems by (intro Cons.IH) (auto simp: p page_comments_simps)
  finally show ?case by (simp add: p page_comments_simps next_token_simps)
qed

lemma while_pages_prefix:
  assumes "\<forall>r\<in>set ps. has_next r"
      and "length (cs @ concat (map page_comments ps)) < MAX_COMMENTS"
  shows "while_pages vid (ps @ later) tok cs tr =
         while_pages vid later (last (tok # map next_token ps))
           (cs @ concat (map page_comments ps))
           (tr @ map (Comment_threads_list vid) (butlast (tok # map next_token ps)))"
  using assms
proof (induction ps arbitrary: tok cs tr)
  case Nil
  show ?case by simp
next
  case (Cons p ps)
  from Cons.prems(1) obtain q where p: "p = Returned q" and q: "truthy (nextPageToken q)"
    by (cases p) (auto simp: has_next_simps)
  from Cons.prems(2) have fit: "length cs + length (page_items q) < MAX_COMMENTS"
    by (auto simp: p page_comments_simps)
  have "while_pages vid ((p # ps) @ later) tok cs tr =
        while_pages vid (ps @ later) (nextPageToken q)
          (cs @ map item_comment (page_items q)) (tr @ [Comment_threads_list vid tok])"
    using while_pages_step [OF q fit] by (simp add: p)
  also have "\<dots> =
      while_pages vid later (last (nextPageToken q # map next_token ps))
        ((cs @ map item_comment (page_items q)) @ concat (map page_comments ps))
        ((tr @ [Comment_threads_list vid tok]) @
         map (Comment_threads_list vid) (butlast (nextPageToken q # map next_token ps)))"
    using Cons.prems by (intro Cons.IH) (auto simp: p page_comments_simps)
  finally show ?case by (simp add: p page_comments_simps next_token_simps)
qed

lemma requests_sent:
  "butlast (tok # map next_token ps) @ [last (tok # map next_token ps)] =
   tok # map next_token ps"
  by (rule append_butlast_last_id) simp

lemma while_pages_fault:
  assumes "\<forall>r\<in>set ps. has_next r"
      and "length (cs @ concat (map page_comments ps)) < MAX_COMMENTS"
  shows "while_pages vid (ps @ HttpError # rest) tok cs tr =
           Some (Inr [], tr @ map (Comment_threads_list vid) (tok # map next_token ps))"
proof -
  have "while_pages vid (ps @ HttpError # rest) tok cs tr =
        Some (Inr [], (tr @ map (Comment_threads_list vid) (butlast (tok # map next_token ps))) @
                      [Comment_threads_list vid (last (tok # map next_token ps))])"
    unfolding while_pages_prefix [OF assms] by (simp add: Let_def)
  also have "(tr @ map (Comment_threads_list vid) (butlast (tok # map next_token ps))) @
               [Comment_threads_list vid (last (tok # map next_token ps))] =
             tr @ map (Comment_threads_list vid)
               (butlast (tok # map next_token ps) @ [last (tok # map next_token ps)])"
    by simp
  finally show ?thesis by (simp only: requests_sent)
qed

lemma while_pages_raises:
  assumes "\<forall>r\<in>set ps. has_next r"
      and "length (cs @ concat (map page_comments ps)) < MAX_COMMENTS"
  shows "while_pages vid (ps @ Raises e # rest) tok cs tr =
           Some (Inl e, tr @ map (Comment_threads_list vid) (tok # map next_token ps))"
proof -
  have "while_pages vid (ps @ Raises e # rest) tok cs tr =
        Some (Inl e, (tr @ map (Comment_threads_list vid) (butlast (tok # map next_token ps))) @
                     [Comment_threads_list vid (last (tok # map next_token ps))])"
    unfolding while_pages_prefix [OF assms] by (simp add: Let_def)
  also have "(tr @ map (Comment_threads_list vid) (butlast (tok # map next_token ps))) @
               [Comment_threads_list vid (last (tok # map next_token ps))] =
             tr @ map (Comment_threads_list vid)
               (butlast (tok # map next_token ps) @ [last (tok # map next_token ps)])"
    by simp
  finally show ?thesis by (simp only: requests_sent)
qed

lemma while_pages_bound:
  "while_pages vid script tok cs tr = Some (Inr out, tr') \<Longrightarrow> length cs < MAX_COMMENTS \<Longrightarrow>
   length out \<le> MAX_COMMENTS"
proof (induction script arbitrary: tok cs tr)
  case Nil
  then show ?case by simp
next
  case (Cons r script)
  show ?case
  proof (cases r)
    case HttpError
    with Cons.prems show ?thesis by (auto simp: Let_def)
  next
    case (Raises e)
    with Cons.prems show ?thesis by (auto simp: Let_def)
  next
    case (Returned q)
    note fr = for_items_result [OF Cons.prems(2), of "page_items q"]
    show ?thesis
    proof (cases "MAX_COMMENTS \<le> length cs + length (page_items q)")
      case True
      with fr Cons.prems(1) show ?thesis
        by (auto simp: Returned Let_def)
    next
      case False
      with fr have step: "for_items (page_items q) cs = Inr (cs @ map item_comment (page_items q))"
        by simp
      show ?thesis
      proof (cases "truthy (nextPageToken q)")
        case True
        with step Cons.prems(1) have
          "while_pages vid script (nextPageToken q) (cs @ map item_comment (page_items q))
             (tr @ [Comment_threads_list vid tok]) = Some (Inr out, tr')"
          by (simp add: Returned Let_def)
        from Cons.IH [OF this] False show ?thesis by simp
      next
        case False
        with step Cons.prems(1) \<open>\<not> MAX_COMMENTS \<le> length cs + length (page_items q)\<close>
        show ?thesis by (auto simp: Returned Let_def)
      qed
    qed
  qed
qed

text \<open>
  Claim C1. \<open>get_comments\<close> never returns more than 20 comments. When the pages the
  transport yields hold fewer than 20 comments up to the first page without a next-page
  token, it returns exactly those comments, in page order. When the comments of the
  pages up to some page reach 20, it returns the first 20 of them, and the requests it
  made are those for the pages up to that one: nothing after it is requested, whatever
  the transport would have answered.
\<close>

theorem get_comments_capped:
  "(get_comments w vid = Some (Inr out, tr) \<longrightarrow> length out \<le> MAX_COMMENTS) \<and>
   (commentThreads w vid = ps @ Returned pg # rest \<and> (\<forall>r\<in>set ps. has_next r) \<and>
    length (concat (map page_comments (ps @ [Returned pg]))) < MAX_COMMENTS \<and>
    \<not> truthy (nextPageToken pg) \<longrightarrow>
      get_comments w vid =
        Some (Inr (concat (map page_comments (ps @ [Returned pg]))),
              map (Comment_threads_list vid) (None # map next_token ps))) \<and>
   (commentThreads w vid = ps @ Returned pg # rest \<and> (\<forall>r\<in>set ps. has_next r) \<and>
    length (concat (map page_comments ps)) < MAX_COMMENTS \<and>
    MAX_COMMENTS \<le> length (concat (map page_comments (ps @ [Returned pg]))) \<longrightarrow>
      get_comments w vid =
        Some (Inr (take MAX_COMMENTS (concat (map page_comments (ps @ [Returned pg])))),
              map (Comment_threads_list vid) (None # map next_token ps)))"
proof (intro conjI impI)
  assume "get_comments w vid = Some (Inr out, tr)"
  then show "length out \<le> MAX_COMMENTS"
    unfolding get_comments_def by (rule while_pages_bound) (simp add: MAX_COMMENTS_def)
next
  assume h: "commentThreads w vid = ps @ Returned pg # rest \<and> (\<forall>r\<in>set ps. has_next r) \<and>
    length (concat (map page_comments (ps @ [Returned pg]))) < MAX_COMMENTS \<and>
    \<not> truthy (nextPageToken pg)"
  then have run: "while_pages vid (ps @ Returned pg # rest) None [] [] =
      Some (Inr (take MAX_COMMENTS ([] @ concat (map page_comments (ps @ [Returned pg])))),
            [] @ map (Comment_threads_list vid) (None # map next_token ps))"
    by (intro while_pages_run) auto
  from h have whole: "take MAX_COMMENTS (concat (map page_comments (ps @ [Returned pg]))) =
      concat (map page_comments (ps @ [Returned pg]))"
    by (intro take_all) simp
  from h have "get_comments w vid = while_pages vid (ps @ Returned pg # rest) None [] []"
    by (simp add: get_comments_def)
  also note run
  finally show "get_comments w vid =
        Some (Inr (concat (map page_comments (ps @ [Returned pg]))),
              map (Comment_threads_list vid) (None # map next_token ps))"
    by (simp only: append_Nil whole)
next
  assume h: "commentThreads w vid = ps @ Returned pg # rest \<and> (\<forall>r\<in>set ps. has_next r) \<and>
    length (concat (map page_comments ps)) < MAX_COMMENTS \<and>
    MAX_COMMENTS \<le> length (concat (map page_comments (ps @ [Returned pg])))"
  then have "while_pages vid (ps @ Returned pg # rest) None [] [] =
      Some (Inr (take MAX_COMMENTS ([] @ concat (map page_comments (ps @ [Returned pg])))),
            [] @ map (Comment_threads_list vid) (None # map next_token ps))"
    by (intro while_pages_run) auto
  with h show "get_comments w vid =
        Some (Inr (take MAX_COMMENTS (concat (map page_comments (ps @ [Returned pg])))),
              map (Comment_threads_list vid) (None # map next_token ps))"
    by (simp add: get_comments_def)
qed

theorem get_comments_capped_witness:
  "get_comments (world_of HttpError short_script) ''vid'' =
     Some (Inr [(''first'', 4), (''second'', 0), (''third'', 0)],
           [Comment_threads_list ''vid'' None, Comment_threads_list ''vid'' (Some ''T1''),
            Comment_threads_list ''vid'' (Some ''T2'')]) \<and>
   length [(''first'', 4::int), (''second'', 0), (''third'', 0)] \<le> MAX_COMMENTS \<and>
   get_comments (world_of HttpError long_script) ''vid'' =
     Some (Inr (replicate 15 (''a'', 0) @ replicate 5 (''b'', 2)),
           [Comment_threads_list ''vid'' None, Comment_threads_list ''vid'' (Some ''T1'')])"
proof -
  let ?p1 = "Returned \<lparr>items = Some [liked_item ''first'' 4, plain_item ''second''], nextPageToken = Some ''T1''\<rparr>"
  let ?p2 = "Returned \<lparr>items = None, nextPageToken = Some ''T2''\<rparr>"
  let ?p3 = "\<lparr>items = Some [plain_item ''third''], nextPageToken = None\<rparr>"
  let ?p4 = "Returned \<lparr>items = Some [plain_item ''never fetched''], nextPageToken = None\<rparr>"
  let ?q1 = "Returned \<lparr>items = Some (replicate 15 (plain_item ''a'')), nextPageToken = Some ''T1''\<rparr>"
  let ?q2 = "\<lparr>items = Some (replicate 10 (liked_item ''b'' 2)), nextPageToken = Some ''T2''\<rparr>"
  note ev = world_of_def short_script_def long_script_def page_comments_simps has_next_simps
    next_token_simps page_items_def truthy_def item_comment_def MAX_COMMENTS_def
    liked_item_def plain_item_def
  have a: "get_comments (world_of HttpError short_script) ''vid'' =
        Some (Inr (concat (map page_comments ([?p1, ?p2] @ [Returned ?p3]))),
              map (Comment_threads_list ''vid'') (None # map next_token [?p1, ?p2]))"
    using get_comments_capped [of "world_of HttpError short_script" "''vid''" _ _ "[?p1, ?p2]" ?p3 "[?p4]"]
    by (simp add: ev)
  have b: "get_comments (world_of HttpError long_script) ''vid'' =
        Some (Inr (take MAX_COMMENTS (concat (map page_comments ([?q1] @ [Returned ?q2])))),
              map (Comment_threads_list ''vid'') (None # map next_token [?q1]))"
    using get_comments_capped [of "world_of HttpError long_script" "''vid''" _ _ "[?q1]" ?q2 "[HttpError]"]
    by (simp add: ev)
  from a have a': "get_comments (world_of HttpError short_script) ''vid'' =
     Some (Inr [(''first'', 4), (''second'', 0), (''third'', 0)],
           [Comment_threads_list ''vid'' None, Comment_threads_list ''vid'' (Some ''T1''),
            Comment_threads_list ''vid'' (Some ''T2'')])"
    by (simp add: ev)
  from get_comments_capped [of "world_of HttpError short_script" "''vid''", THEN conjunct1, rule_format, OF a']
  have c: "length [(''first'', 4::int), (''second'', 0), (''third'', 0)] \<le> MAX_COMMENTS" .
  from b have b': "get_comments (world_of HttpError long_script) ''vid'' =
     Some (Inr (replicate 15 (''a'', 0) @ replicate 5 (''b'', 2)),
           [Comment_threads_list ''vid'' None, Comment_threads_list ''vid'' (Some ''T1'')])"
    by (simp add: ev)
  from a' c b' show ?thesis by simp
qed

text \<open>
  Claim C6, as stated: a transport fault during collection is swallowed, and after pages
  that contributed comments \<open>get_comments\<close> returns the comments gathered so far. It
  does neither in general: on HttpError the handler returns the empty list, dropping the
  comment already gathered, and an exception other than HttpError, here a timeout, is
  not caught and leaves \<open>get_comments\<close>.
\<close>

theorem get_comments_fault_counterexample:
  "has_next (Returned \<lparr>items = Some [liked_item ''nice'' 3], nextPageToken = Some ''T1''\<rparr>) \<and>
   page_comments (Returned \<lparr>items = Some [liked_item ''nice'' 3], nextPageToken = Some ''T1''\<rparr>) =
     [(''nice'', 3)] \<and>
   commentThreads (world_of HttpError faulting_script) ''vid'' =
     Returned \<lparr>items = Some [liked_item ''nice'' 3], nextPageToken = Some ''T1''\<rparr> # HttpError #
       [Returned \<lparr>items = Some [plain_item ''late''], nextPageToken = None\<rparr>] \<and>
   map_option fst (get_comments (world_of HttpError faulting_script) ''vid'') \<noteq>
     Some (Inr [(''nice'', 3)]) \<and>
   map_option fst (get_comments (world_of HttpError faulting_script) ''vid'') = Some (Inr []) \<and>
   commentThreads (world_of HttpError timeout_script) ''vid'' =
     Returned \<lparr>items = Some [liked_item ''nice'' 3], nextPageToken = Some ''T1''\<rparr> #
       Raises TimeoutError #
       [Returned \<lparr>items = Some [plain_item ''late''], nextPageToken = None\<rparr>] \<and>
   map_option fst (get_comments (world_of HttpError timeout_script) ''vid'') =
     Some (Inl TimeoutError)"
  by (simp add: get_comments_def world_of_def faulting_script_def timeout_script_def
      page_comments_simps has_next_simps page_items_def truthy_def item_comment_def
      MAX_COMMENTS_def liked_item_def plain_item_def Let_def)

text \<open>
  Claim C6, amended. When a request raises HttpError, after pages that each carried a
  next-page token and together held fewer than 20 comments, the fault is swallowed:
  \<open>get_comments\<close> returns normally, with the empty list and not with the comments
  gathered so far, and has made no request after the one that faulted. When a request
  raises another exception instead, that exception is not caught: it leaves
  \<open>get_comments\<close>, again with no request after it.
\<close>

theorem get_comments_fault_empty:
  "(commentThreads w vid = ps @ HttpError # rest \<and> (\<forall>r\<in>set ps. has_next r) \<and>
    length (concat (map page_comments ps)) < MAX_COMMENTS \<longrightarrow>
      get_comments w vid =
        Some (Inr [], map (Comment_threads_list vid) (None # map next_token ps))) \<and>
   (commentThreads w vid = ps @ Raises e # rest \<and> (\<forall>r\<in>set ps. has_next r) \<and>
    length (concat (map page_comments ps)) < MAX_COMMENTS \<longrightarrow>
      get_comments w vid =
        Some (Inl e, map (Comment_threads_list vid) (None # map next_token ps)))"
proof (intro conjI impI)
  assume h: "commentThreads w vid = ps @ HttpError # rest \<and> (\<forall>r\<in>set ps. has_next r) \<and>
    length (concat (map page_comments ps)) < MAX_COMMENTS"
  then have "while_pages vid (ps @ HttpError # rest) None [] [] =
          Some (Inr [], [] @ map (Comment_threads_list vid) (None # map next_token ps))"
    by (intro while_pages_fault) auto
  with h show "get_comments w vid =
        Some (Inr [], map (Comment_threads_list vid) (None # map next_token ps))"
    by (simp add: get_comments_def)
next
  assume h: "commentThreads w vid = ps @ Raises e # rest \<and> (\<forall>r\<in>set ps. has_next r) \<and>
    length (concat (map page_comments ps)) < MAX_COMMENTS"
  then have "while_pages vid (ps @ Raises e # rest) None [] [] =
          Some (Inl e, [] @ map (Comment_threads_list vid) (None # map next_token ps))"
    by (intro while_pages_raises) auto
  with h show "get_comments w vid =
        Some (Inl e, map (Comment_threads_list vid) (None # map next_token ps))"
    by (simp add: get_comments_def)
qed

theorem get_comments_fault_empty_witness:
  "get_comments (world_of HttpError faulting_script) ''vid'' =
     Some (Inr [],
           [Comment_threads_list ''vid'' None, Comment_threads_list ''vid'' (Some ''T1'')]) \<and>
   get_comments (world_of HttpError timeout_script) ''vid'' =
     Some (Inl TimeoutError,
           [Comment_threads_list ''vid'' None, Comment_threads_list ''vid'' (Some ''T1'')])"
proof -
  note ev = world_of_def faulting_script_def timeout_script_def page_comments_simps
    has_next_simps next_token_simps page_items_def truthy_def item_comment_def
    MAX_COMMENTS_def liked_item_def plain_item_def
  have a: "get_comments (world_of HttpError faulting_script) ''vid'' =
     Some (Inr [],
           [Comment_threads_list ''vid'' None, Comment_threads_list ''vid'' (Some ''T1'')])"
    using get_comments_fault_empty
      [where w = "world_of HttpError faulting_script" and vid = "''vid''"
         and ps = "[Returned \<lparr>items = Some [liked_item ''nice'' 3],
                             nextPageToken = Some ''T1''\<rparr>]"
         and rest = "[Returned \<lparr>items = Some [plain_item ''late''], nextPageToken = None\<rparr>]",
       THEN conjunct1]
    by (simp add: ev)
  have b: "get_comments (world_of HttpError timeout_script) ''vid'' =
     Some (Inl TimeoutError,
           [Comment_threads_list ''vid'' None, Comment_threads_list ''vid'' (Some ''T1'')])"
    using get_comments_fault_empty
      [where w = "world_of HttpError timeout_script" and vid = "''vid''"
         and e = TimeoutError
         and ps = "[Returned \<lparr>items = Some [liked_item ''nice'' 3],
                             nextPageToken = Some ''T1''\<rparr>]"
         and rest = "[Returned \<lparr>items = Some [plain_item ''late''], nextPageToken = None\<rparr>]",
       THEN conjunct2]
    by (simp add: ev)
  from a b show ?thesis by (intro conjI)
qed

section \<open>Sentiment of one comment\<close>

lemma contains_iff: "contains sep s \<longleftrightarrow> (\<exists>p q. s = p @ sep @ q)"
proof (induction s)
  case Nil
  show ?case by auto
next
  case (Cons c cs)
  show ?case
  proof
    assume "contains sep (c # cs)"
    then consider "prefix sep (c # cs)" | "contains sep cs" by auto
    then show "\<exists>p q. c # cs = p @ sep @ q"
    proof cases
      case 1
      then obtain q where "c # cs = sep @ q" by (auto simp: prefix_def)
      then have "c # cs = [] @ sep @ q" by simp
      then show ?thesis by blast
    next
      case 2
      with Cons.IH obtain p q where "cs = p @ sep @ q" by blast
      then have "c # cs = (c # p) @ sep @ q" by simp
      then show ?thesis by blast
    qed
  next
    assume "\<exists>p q. c # cs = p @ sep @ q"
    then obtain p q where pq: "c # cs = p @ sep @ q" by blast
    show "contains sep (c # cs)"
    proof (cases p)
      case Nil
      with pq have "prefix sep (c # cs)" by (simp add: prefix_def)
      then show ?thesis by simp
    next
      case (Cons a p')
      with pq have "cs = p' @ sep @ q" by simp
      with Cons.IH have "contains sep cs" by blast
      then show ?thesis by simp
    qed
  qed
qed

lemma contains_upper_iff:
  "contains word (upper label) \<longleftrightarrow> (\<exists>p m q. label = p @ m @ q \<and> upper m = word)"
proof
  assume "contains word (upper label)"
  then obtain p' q' where "map upper_char label = p' @ word @ q'"
    by (auto simp: contains_iff upper_def)
  then obtain p r where l1: "label = p @ r" and "word @ q' = map upper_char r"
    by (auto simp: map_eq_append_conv)
  then obtain m q where "r = m @ q" and "map upper_char m = word"
    by (auto simp: append_eq_map_conv)
  with l1 show "\<exists>p m q. label = p @ m @ q \<and> upper m = word"
    by (auto simp: upper_def)
next
  assume "\<exists>p m q. label = p @ m @ q \<and> upper m = word"
  then obtain p m q where "label = p @ m @ q" and "upper m = word" by blast
  then have "upper label = upper p @ word @ upper q" by (simp add: upper_def)
  then show "contains word (upper label)" by (auto simp: contains_iff)
qed

lemma strip_empty_iff: "strip s = [] \<longleftrightarrow> (\<forall>c\<in>set s. isspace c)"
proof
  assume "strip s = []"
  then have all: "\<forall>c\<in>set (dropWhile isspace s). isspace c"
    by (simp add: strip_def dropWhile_eq_Nil_conv)
  have "dropWhile isspace s = []"
  proof (rule ccontr)
    assume ne: "dropWhile isspace s \<noteq> []"
    then have "\<not> isspace (hd (dropWhile isspace s))" by (rule hd_dropWhile)
    moreover from ne have "hd (dropWhile isspace s) \<in> set (dropWhile isspace s)" by simp
    ultimately show False using all by blast
  qed
  then show "\<forall>c\<in>set s. isspace c" by (simp add: dropWhile_eq_Nil_conv)
next
  assume "\<forall>c\<in>set s. isspace c"
  then have "dropWhile isspace s = []" by (simp add: dropWhile_eq_Nil_conv)
  then show "strip s = []" by (simp only: strip_def rev.simps dropWhile.simps)
qed

lemma match_tag_first:
  "CHR ''>'' \<notin> set body \<Longrightarrow> CHR 0x0A \<notin> set body \<Longrightarrow>
   match_tag (body @ CHR ''>'' # rest) = Some rest"
  by (induction body) auto

lemma strip_tags_no_tag: "CHR ''<'' \<notin> set s \<Longrightarrow> strip_tags s = s"
  by (induction s) auto

lemma strip_tags_tag:
  assumes "CHR ''<'' \<notin> set pre" and "CHR ''>'' \<notin> set body" and "CHR 0x0A \<notin> set body"
  shows "strip_tags (pre @ CHR ''<'' # body @ CHR ''>'' # rest) = pre @ strip_tags rest"
  using assms(1)
proof (induction pre)
  case Nil
  from match_tag_first [OF assms(2,3)] show ?case by simp
next
  case (Cons c pre)
  then have "c \<noteq> CHR ''<''" by auto
  with Cons show ?case by simp
qed

text \<open>
  Claim C2. \<open>analyze_sentiment\<close> first removes tags: a \<open><\<close> up to the nearest \<open>>\<close> on
  the same line is dropped (the shortest match, not the longest), and a text without \<open><\<close> is
  left as it is. If every character of the stripped text is white space (none included)
  the result is Neutral and the pipeline is not called. Otherwise the pipeline is called
  once, on the first 256 characters of the stripped text, and its label decides: Negative
  if the upper-cased label contains NEGATIVE, else Neutral if it contains NEUTRAL, else
  Positive. The upper-cased label contains a word exactly when the label has a
  substring that upper-cases to the word.
\<close>

theorem analyze_sentiment_steps:
  "(CHR ''<'' \<notin> set pre \<and> CHR ''>'' \<notin> set body \<and> CHR 0x0A \<notin> set body \<longrightarrow>
      strip_tags (pre @ CHR ''<'' # body @ CHR ''>'' # rest) = pre @ strip_tags rest) \<and>
   (CHR ''<'' \<notin> set comment \<longrightarrow> strip_tags comment = comment) \<and>
   ((\<forall>c\<in>set (strip_tags comment). isspace c) \<longrightarrow>
      analyze_sentiment w comment = (Neutral, [])) \<and>
   (\<not> (\<forall>c\<in>set (strip_tags comment). isspace c) \<longrightarrow>
      analyze_sentiment w comment =
        (let label = upper (sentiment_pipeline w (take 256 (strip_tags comment)))
         in if contains ''NEGATIVE'' label then Negative
            else if contains ''NEUTRAL'' label then Neutral
            else Positive,
         [Sentiment_pipeline (take 256 (strip_tags comment))])) \<and>
   (contains word (upper label) \<longleftrightarrow> (\<exists>p m q. label = p @ m @ q \<and> upper m = word))"
proof (intro conjI impI)
  assume "CHR ''<'' \<notin> set pre \<and> CHR ''>'' \<notin> set body \<and> CHR 0x0A \<notin> set body"
  then show "strip_tags (pre @ CHR ''<'' # body @ CHR ''>'' # rest) = pre @ strip_tags rest"
    by (intro strip_tags_tag) auto
next
  assume "CHR ''<'' \<notin> set comment"
  then show "strip_tags comment = comment" by (rule strip_tags_no_tag)
next
  assume "\<forall>c\<in>set (strip_tags comment). isspace c"
  then have "strip (strip_tags comment) = []" by (simp add: strip_empty_iff)
  then show "analyze_sentiment w comment = (Neutral, [])"
    by (simp add: analyze_sentiment_def)
next
  assume "\<not> (\<forall>c\<in>set (strip_tags comment). isspace c)"
  then have "strip (strip_tags comment) \<noteq> []" by (simp add: strip_empty_iff)
  then show "analyze_sentiment w comment =
        (let label = upper (sentiment_pipeline w (take 256 (strip_tags comment)))
         in if contains ''NEGATIVE'' label then Negative
            else if contains ''NEUTRAL'' label then Neutral
            else Positive,
         [Sentiment_pipeline (take 256 (strip_tags comment))])"
    by (simp add: analyze_sentiment_def Let_def)
next
  show "contains word (upper label) \<longleftrightarrow> (\<exists>p m q. label = p @ m @ q \<and> upper m = word)"
    by (rule contains_upper_iff)
qed

theorem analyze_sentiment_steps_witness:
  "strip_tags (''a'' @ CHR ''<'' # ''b>c'' @ CHR ''>'' # ''d<e'') = ''a'' @ ''c>d<e'' \<and>
   strip_tags ''plain > text'' = ''plain > text'' \<and>
   analyze_sentiment (world_of HttpError []) ''<b></b>   '' = (Neutral, []) \<and>
   analyze_sentiment (world_of HttpError []) ''<i>so bad</i>'' =
     (Negative, [Sentiment_pipeline ''so bad''])"
proof -
  note ev = isspace_def world_of_def upper_def upper_char_def
  have a: "strip_tags (''a'' @ CHR ''<'' # ''b'' @ CHR ''>'' # ''c>d<e'') = ''a'' @ strip_tags ''c>d<e''"
    using analyze_sentiment_steps [of "''a''" "''b''" "''c>d<e''", THEN conjunct1] by simp
  have b: "strip_tags ''plain > text'' = ''plain > text''"
    using analyze_sentiment_steps [of _ _ _ "''plain > text''", THEN conjunct2, THEN conjunct1]
    by simp
  have c: "analyze_sentiment (world_of HttpError []) ''<b></b>   '' = (Neutral, [])"
    using analyze_sentiment_steps [of _ _ _ "''<b></b>   ''" "world_of HttpError []",
        THEN conjunct2, THEN conjunct2, THEN conjunct1]
    by (simp add: ev)
  have d: "analyze_sentiment (world_of HttpError []) ''<i>so bad</i>'' =
     (Negative, [Sentiment_pipeline ''so bad''])"
    using analyze_sentiment_steps [of _ _ _ "''<i>so bad</i>''" "world_of HttpError []",
        THEN conjunct2, THEN conjunct2, THEN conjunct2, THEN conjunct1]
    by (simp add: ev)
  from a b c d show ?thesis by simp
qed

section \<open>The tally of labels\<close>

lemma for_comments_counts:
  "positive (fst (for_comments w cd (v0, t0, tr0))) =
     positive v0 + length [c\<leftarrow>cd. label_of w c = Positive] \<and>
   negative (fst (for_comments w cd (v0, t0, tr0))) =
     negative v0 + length [c\<leftarrow>cd. label_of w c = Negative] \<and>
   neutral (fst (for_comments w cd (v0, t0, tr0))) =
     neutral v0 + length [c\<leftarrow>cd. label_of w c = Neutral]"
proof (induction cd arbitrary: v0 t0 tr0)
  case Nil
  show ?case by simp
next
  case (Cons c cd)
  obtain body likes where c: "c = (body, likes)" by (cases c)
  obtain s calls where a: "analyze_sentiment w body = (s, calls)"
    by (cases "analyze_sentiment w body")
  show ?case
    by (cases s) (simp_all add: c a Cons.IH label_of_def)
qed

lemma for_comments_buckets:
  "positive_comments (fst (for_comments w cd (v0, t0, tr0))) =
     positive_comments v0 @ map fst [c\<leftarrow>cd. label_of w c = Positive] \<and>
   negative_comments (fst (for_comments w cd (v0, t0, tr0))) =
     negative_comments v0 @ map fst [c\<leftarrow>cd. label_of w c = Negative] \<and>
   neutral_comments (fst (for_comments w cd (v0, t0, tr0))) =
     neutral_comments v0 @ map fst [c\<leftarrow>cd. label_of w c = Neutral]"
proof (induction cd arbitrary: v0 t0 tr0)
  case Nil
  show ?case by simp
next
  case (Cons c cd)
  obtain body likes where c: "c = (body, likes)" by (cases c)
  obtain s calls where a: "analyze_sentiment w body = (s, calls)"
    by (cases "analyze_sentiment w body")
  show ?case
    by (cases s) (simp_all add: c a Cons.IH label_of_def)
qed

lemma for_comments_rest:
  "top_liked_comments (fst (for_comments w cd (v0, t0, tr0))) = top_liked_comments v0 \<and>
   video_stats (fst (for_comments w cd (v0, t0, tr0))) = video_stats v0 \<and>
   error_message (fst (for_comments w cd (v0, t0, tr0))) = error_message v0"
proof (induction cd arbitrary: v0 t0 tr0)
  case Nil
  show ?case by simp
next
  case (Cons c cd)
  obtain body likes where c: "c = (body, likes)" by (cases c)
  obtain s calls where a: "analyze_sentiment w body = (s, calls)"
    by (cases "analyze_sentiment w body")
  show ?case
    by (cases s) (simp_all add: c a Cons.IH)
qed

lemma label_partition_length:
  "length [c\<leftarrow>cd. label_of w c = Positive] + length [c\<leftarrow>cd. label_of w c = Negative] +
   length [c\<leftarrow>cd. label_of w c = Neutral] = length cd"
proof (induction cd)
  case Nil
  show ?case by simp
next
  case (Cons c cd)
  then show ?case by (cases "label_of w c") simp_all
qed

lemma label_partition_mset:
  "mset [c\<leftarrow>cd. label_of w c = Positive] + mset [c\<leftarrow>cd. label_of w c = Negative] +
   mset [c\<leftarrow>cd. label_of w c = Neutral] = mset cd"
proof (induction cd)
  case Nil
  show ?case by simp
next
  case (Cons c cd)
  then show ?case by (cases "label_of w c") simp_all
qed

text \<open>
  Claim C3. After the loop over the collected comments, entered as \<open>home\<close> enters it
  (counters 0, buckets empty), the three counters sum to the number of comments; each
  bucket holds, in the order of collection, the texts of exactly the comments with its
  label; each counter is the length of its bucket; and the three buckets together hold
  every comment text exactly as often as it was collected.
\<close>

theorem tally_partition:
  "case for_comments w cd (initial_locals\<lparr>video_stats := vs\<rparr>, [], []) of
     (v, all_text, tr) \<Rightarrow>
       positive v + negative v + neutral v = length cd \<and>
       positive_comments v = map fst [c\<leftarrow>cd. label_of w c = Positive] \<and>
       negative_comments v = map fst [c\<leftarrow>cd. label_of w c = Negative] \<and>
       neutral_comments v = map fst [c\<leftarrow>cd. label_of w c = Neutral] \<and>
       positive v = length (positive_comments v) \<and>
       negative v = length (negative_comments v) \<and>
       neutral v = length (neutral_comments v) \<and>
       mset (positive_comments v) + mset (negative_comments v) + mset (neutral_comments v) =
         mset (map fst cd)"
proof -
  let ?start = "initial_locals\<lparr>video_stats := vs\<rparr>"
  obtain v all_text tr where run: "for_comments w cd (?start, [], []) = (v, all_text, tr)"
    by (cases "for_comments w cd (?start, [], [])")
  have zero: "positive ?start = 0" "negative ?start = 0" "neutral ?start = 0"
    "positive_comments ?start = []" "negative_comments ?start = []"
    "neutral_comments ?start = []"
    by (simp_all add: initial_locals_def)
  from for_comments_counts [of w cd ?start "[]" "[]"]
  have n: "positive v = length [c\<leftarrow>cd. label_of w c = Positive]"
    "negative v = length [c\<leftarrow>cd. label_of w c = Negative]"
    "neutral v = length [c\<leftarrow>cd. label_of w c = Neutral]"
    by (simp_all add: run zero)
  from for_comments_buckets [of w cd ?start "[]" "[]"]
  have b: "positive_comments v = map fst [c\<leftarrow>cd. label_of w c = Positive]"
    "negative_comments v = map fst [c\<leftarrow>cd. label_of w c = Negative]"
    "neutral_comments v = map fst [c\<leftarrow>cd. label_of w c = Neutral]"
    by (simp_all add: run zero)
  have sum: "positive v + negative v + neutral v = length cd"
    using label_partition_length [of w cd] by (simp add: n)
  have "mset (positive_comments v) + mset (negative_comments v) + mset (neutral_comments v) =
      image_mset fst (mset [c\<leftarrow>cd. label_of w c = Positive] +
        mset [c\<leftarrow>cd. label_of w c = Negative] + mset [c\<leftarrow>cd. label_of w c = Neutral])"
    by (simp add: b)
  also have "\<dots> = mset (map fst cd)"
    by (simp only: label_partition_mset mset_map)
  finally have all: "mset (positive_comments v) + mset (negative_comments v) +
      mset (neutral_comments v) = mset (map fst cd)" .
  have goal: "positive v + negative v + neutral v = length cd \<and>
       positive_comments v = map fst [c\<leftarrow>cd. label_of w c = Positive] \<and>
       negative_comments v = map fst [c\<leftarrow>cd. label_of w c = Negative] \<and>
       neutral_comments v = map fst [c\<leftarrow>cd. label_of w c = Neutral] \<and>
       positive v = length (positive_comments v) \<and>
       negative v = length (negative_comments v) \<and>
       neutral v = length (neutral_comments v) \<and>
       mset (positive_comments v) + mset (negative_comments v) + mset (neutral_comments v) =
         mset (map fst cd)"
    using sum all by (simp add: n b)
  show ?thesis unfolding run prod.case by (fact goal)
qed

section \<open>The top-liked comments\<close>

lemma analysis_top_liked:
  "top_liked_comments (fst (analysis w vs cd v0)) = take 5 (sorted_reverse snd cd)"
  by (simp add: analysis_def Let_def split: prod.splits)

lemma sorted_reverse_descending: "sorted (map (\<lambda>c. - key c) (sorted_reverse key xs))"
  unfolding sorted_reverse_def by (rule sorted_sort_key)

lemma sorted_reverse_mset: "mset (sorted_reverse key xs) = mset xs"
  by (simp add: sorted_reverse_def)

lemma sorted_reverse_stable:
  "[c\<leftarrow>sorted_reverse key xs. key c = k] = [c\<leftarrow>xs. key c = k]"
proof -
  have "[c\<leftarrow>sort_key (\<lambda>x. - key x) xs. - key c = - k] = [c\<leftarrow>xs. - key c = - k]"
    by (rule sort_key_stable)
  then show ?thesis by (simp add: sorted_reverse_def)
qed

lemma take_below_drop:
  assumes "sorted (map f xs)" and "a \<in> set (take n xs)" and "b \<in> set (drop n xs)"
  shows "f a \<le> f b"
proof -
  from assms(1) have "sorted (map f (take n xs) @ map f (drop n xs))"
    by (simp flip: map_append)
  with assms(2,3) show ?thesis by (auto simp: sorted_append)
qed

text \<open>
  Claim C4. The top-liked comments \<open>home\<close> selects are the first 5 of the collected
  comments sorted by like count, descending: as many as there are when fewer than 5;
  in descending order of likes; with every comment left out liked no more than any
  comment selected; and, for each like count, the selected comments with that count are
  an initial part of the collected comments with that count, in their original order.
  The selection is the same whatever the world, hence whatever labels the classifier
  gives, and whatever the other locals are.
\<close>

theorem top_liked_selection:
  "top_liked_comments (fst (analysis w vs cd v0)) = take 5 (sorted_reverse snd cd) \<and>
   length (take 5 (sorted_reverse snd cd)) = min 5 (length cd) \<and>
   sorted (map (\<lambda>c. - snd c) (take 5 (sorted_reverse snd cd))) \<and>
   mset (take 5 (sorted_reverse snd cd)) + mset (drop 5 (sorted_reverse snd cd)) = mset cd \<and>
   (\<forall>a\<in>set (take 5 (sorted_reverse snd cd)).
      \<forall>b\<in>set (drop 5 (sorted_reverse snd cd)). snd b \<le> snd a) \<and>
   (\<forall>k. prefix [c\<leftarrow>take 5 (sorted_reverse snd cd). snd c = k] [c\<leftarrow>cd. snd c = k]) \<and>
   top_liked_comments (fst (analysis w' vs' cd v0')) =
     top_liked_comments (fst (analysis w vs cd v0))"
proof (intro conjI ballI allI)
  show "top_liked_comments (fst (analysis w vs cd v0)) = take 5 (sorted_reverse snd cd)"
    by (rule analysis_top_liked)
next
  have "length (sorted_reverse snd cd) = length cd"
    by (simp add: sorted_reverse_def)
  then show "length (take 5 (sorted_reverse snd cd)) = min 5 (length cd)" by simp
next
  have "sorted (take 5 (map (\<lambda>c. - snd c) (sorted_reverse snd cd)))"
    by (intro sorted_wrt_take sorted_reverse_descending)
  then show "sorted (map (\<lambda>c. - snd c) (take 5 (sorted_reverse snd cd)))"
    by (simp only: take_map)
next
  have "mset (take 5 (sorted_reverse snd cd)) + mset (drop 5 (sorted_reverse snd cd)) =
        mset (take 5 (sorted_reverse snd cd) @ drop 5 (sorted_reverse snd cd))"
    by (simp only: mset_append)
  also have "\<dots> = mset cd" by (simp only: append_take_drop_id sorted_reverse_mset)
  finally show "mset (take 5 (sorted_reverse snd cd)) + mset (drop 5 (sorted_reverse snd cd)) =
      mset cd" .
next
  fix a b
  assume "a \<in> set (take 5 (sorted_reverse snd cd))"
     and "b \<in> set (drop 5 (sorted_reverse snd cd))"
  with sorted_reverse_descending [of snd cd] have "- snd a \<le> - snd b"
    by (rule take_below_drop)
  then show "snd b \<le> snd a" by simp
next
  fix k
  have "prefix [c\<leftarrow>take 5 (sorted_reverse snd cd). snd c = k]
          [c\<leftarrow>sorted_reverse snd cd. snd c = k]"
    by (intro filter_mono_prefix take_is_prefix)
  then show "prefix [c\<leftarrow>take 5 (sorted_reverse snd cd). snd c = k] [c\<leftarrow>cd. snd c = k]"
    by (simp only: sorted_reverse_stable)
next
  show "top_liked_comments (fst (analysis w' vs' cd v0')) =
     top_liked_comments (fst (analysis w vs cd v0))"
    by (simp only: analysis_top_liked)
qed

theorem top_liked_selection_witness:
  "top_liked_comments
     (fst (analysis (world_of HttpError [])
             \<lparr>title = ''t'', views = 1, likes = 1, comments_count = 7\<rparr>
             liked_sample initial_locals)) =
     [(''d'', 10), (''a'', 5), (''b'', 5), (''f'', 5), (''c'', 3)] \<and>
   drop 5 (sorted_reverse snd liked_sample) = [(''e'', 1), (''g'', 0)] \<and>
   snd (''e'', 1::int) \<le> snd (''c'', 3::int) \<and>
   prefix [(''a'', 5), (''b'', 5), (''f'', 5::int)] [c\<leftarrow>liked_sample. snd c = 5]"
proof -
  have s: "sorted_reverse snd liked_sample =
      [(''d'', 10), (''a'', 5), (''b'', 5), (''f'', 5), (''c'', 3), (''e'', 1), (''g'', 0)]"
    by (simp add: sorted_reverse_def liked_sample_def sort_key_def)
  have f: "[c\<leftarrow>liked_sample. snd c = 5] = [(''a'', 5), (''b'', 5), (''f'', 5)]"
    by (simp add: liked_sample_def)
  from top_liked_selection
    [of "world_of HttpError []" "\<lparr>title = ''t'', views = 1, likes = 1, comments_count = 7\<rparr>"
        liked_sample initial_locals]
  show ?thesis
    by (simp add: s f)
qed

section \<open>Outcomes of the home route\<close>

lemma for_comments_text:
  "fst (snd (for_comments w cd (v0, t0, tr0))) = t0 @ concat (map (\<lambda>c. '' '' @ fst c) cd)"
proof (induction cd arbitrary: v0 t0 tr0)
  case Nil
  show ?case by simp
next
  case (Cons c cd)
  obtain body likes where c: "c = (body, likes)" by (cases c)
  obtain s calls where a: "analyze_sentiment w body = (s, calls)"
    by (cases "analyze_sentiment w body")
  show ?case by (simp add: c a Cons.IH)
qed

lemma for_comments_trace:
  "snd (snd (for_comments w cd (v0, t0, tr0))) =
     tr0 @ concat (map (\<lambda>c. snd (analyze_sentiment w (fst c))) cd)"
proof (induction cd arbitrary: v0 t0 tr0)
  case Nil
  show ?case by simp
next
  case (Cons c cd)
  obtain body likes where c: "c = (body, likes)" by (cases c)
  obtain s calls where a: "analyze_sentiment w body = (s, calls)"
    by (cases "analyze_sentiment w body")
  show ?case by (simp add: c a Cons.IH)
qed

lemma analysis_written:
  "fst (snd (analysis w vs cd v0)) =
     (case wordcloud_png w (cloud_text cd) of
        Inl e \<Rightarrow> Inl e
      | Inr img \<Rightarrow>
          Inr [(''video_stats'', Stats vs),
               (''positive'', Count (positive (fst (analysis w vs cd v0)))),
               (''negative'', Count (negative (fst (analysis w vs cd v0)))),
               (''neutral'', Count (neutral (fst (analysis w vs cd v0)))),
               (''wordcloud_image'', Bytes img)])"
proof -
  obtain v t tr where run: "for_comments w cd (v0, [], []) = (v, t, tr)"
    by (cases "for_comments w cd (v0, [], [])")
  from for_comments_text [of w cd v0 "[]" "[]"]
  have t: "t = concat (map (\<lambda>c. '' '' @ fst c) cd)" by (simp add: run)
  show ?thesis
    by (simp add: analysis_def run Let_def cloud_text_def t split: sum.splits)
qed

lemma analysis_trace:
  "snd (snd (analysis w vs cd v0)) =
     concat (map (\<lambda>c. snd (analyze_sentiment w (fst c))) cd) @
     [WordCloud_generate (cloud_text cd)]"
proof -
  obtain v t tr where run: "for_comments w cd (v0, [], []) = (v, t, tr)"
    by (cases "for_comments w cd (v0, [], [])")
  from for_comments_text [of w cd v0 "[]" "[]"]
  have t: "t = concat (map (\<lambda>c. '' '' @ fst c) cd)" by (simp add: run)
  from for_comments_trace [of w cd v0 "[]" "[]"]
  have tr: "tr = concat (map (\<lambda>c. snd (analyze_sentiment w (fst c))) cd)" by (simp add: run)
  show ?thesis by (simp add: analysis_def run Let_def cloud_text_def t tr)
qed

lemma analysis_counts:
  "positive (fst (analysis w vs cd (initial_locals\<lparr>video_stats := x\<rparr>))) =
     length [c\<leftarrow>cd. label_of w c = Positive] \<and>
   negative (fst (analysis w vs cd (initial_locals\<lparr>video_stats := x\<rparr>))) =
     length [c\<leftarrow>cd. label_of w c = Negative] \<and>
   neutral (fst (analysis w vs cd (initial_locals\<lparr>video_stats := x\<rparr>))) =
     length [c\<leftarrow>cd. label_of w c = Neutral]"
proof -
  let ?start = "initial_locals\<lparr>video_stats := x\<rparr>"
  obtain v t tr where run: "for_comments w cd (?start, [], []) = (v, t, tr)"
    by (cases "for_comments w cd (?start, [], [])")
  have zero: "positive ?start = 0" "negative ?start = 0" "neutral ?start = 0"
    by (simp_all add: initial_locals_def)
  from for_comments_counts [of w cd ?start "[]" "[]"]
  have "positive v = length [c\<leftarrow>cd. label_of w c = Positive] \<and>
        negative v = length [c\<leftarrow>cd. label_of w c = Negative] \<and>
        neutral v = length [c\<leftarrow>cd. label_of w c = Neutral]"
    by (simp add: run zero)
  then show ?thesis by (simp add: analysis_def run Let_def)
qed

lemma get_video_stats_trace: "snd (get_video_stats w vid) = [Videos_list vid]"
  by (simp add: get_video_stats_def)

lemma get_video_stats_none:
  "videos w vid = HttpError \<or> videos w vid = Returned [] \<Longrightarrow>
   get_video_stats w vid = (Inr None, [Videos_list vid])"
  by (auto simp: get_video_stats_def)

lemma get_video_stats_raises:
  "videos w vid = Raises e \<Longrightarrow> get_video_stats w vid = (Inl e, [Videos_list vid])"
  by (simp add: get_video_stats_def)

lemma home_get:
  "request_method req \<noteq> ''POST'' \<Longrightarrow>
   home w req rd = Some \<lparr>page = Inr (Index initial_locals), report_data = rd, trace = []\<rparr>"
  by (simp add: home_def Let_def)

lemma home_raises:
  "request_method req = ''POST'' \<Longrightarrow> extract_video_id (form_link req) = Inl e \<Longrightarrow>
   home w req rd = Some \<lparr>page = Inl e, report_data = rd, trace = []\<rparr>"
  by (simp add: home_def Let_def)

lemma home_invalid:
  "request_method req = ''POST'' \<Longrightarrow>
   extract_video_id (form_link req) = Inr None \<or>
   extract_video_id (form_link req) = Inr (Some []) \<Longrightarrow>
   home w req rd =
     Some \<lparr>page = Inr (Index (initial_locals\<lparr>error_message := ''Invalid YouTube Link!''\<rparr>)),
           report_data = rd, trace = []\<rparr>"
  by (auto simp: home_def Let_def)

lemma home_no_stats:
  "request_method req = ''POST'' \<Longrightarrow> extract_video_id (form_link req) = Inr (Some vid) \<Longrightarrow>
   vid \<noteq> [] \<Longrightarrow> videos w vid = HttpError \<or> videos w vid = Returned [] \<Longrightarrow>
   home w req rd =
     Some \<lparr>page = Inr (Index_error_only ''Unable to fetch video details.''),
           report_data = rd, trace = [Videos_list vid]\<rparr>"
  by (simp add: home_def Let_def get_video_stats_none)

lemma home_stats_raise:
  "request_method req = ''POST'' \<Longrightarrow> extract_video_id (form_link req) = Inr (Some vid) \<Longrightarrow>
   vid \<noteq> [] \<Longrightarrow> get_video_stats w vid = (Inl e, tr1) \<Longrightarrow>
   home w req rd = Some \<lparr>page = Inl e, report_data = rd, trace = tr1\<rparr>"
  by (simp add: home_def Let_def)

lemma home_stats_none:
  "request_method req = ''POST'' \<Longrightarrow> extract_video_id (form_link req) = Inr (Some vid) \<Longrightarrow>
   vid \<noteq> [] \<Longrightarrow> get_video_stats w vid = (Inr None, tr1) \<Longrightarrow>
   home w req rd =
     Some \<lparr>page = Inr (Index_error_only ''Unable to fetch video details.''),
           report_data = rd, trace = tr1\<rparr>"
  by (simp add: home_def Let_def)

lemma home_comments_raise:
  "request_method req = ''POST'' \<Longrightarrow> extract_video_id (form_link req) = Inr (Some vid) \<Longrightarrow>
   vid \<noteq> [] \<Longrightarrow> get_video_stats w vid = (Inr (Some vs), tr1) \<Longrightarrow>
   get_comments w vid = Some (Inl e, tr2) \<Longrightarrow>
   home w req rd = Some \<lparr>page = Inl e, report_data = rd, trace = tr1 @ tr2\<rparr>"
  by (simp add: home_def Let_def)

lemma home_no_comments:
  "request_method req = ''POST'' \<Longrightarrow> extract_video_id (form_link req) = Inr (Some vid) \<Longrightarrow>
   vid \<noteq> [] \<Longrightarrow> get_video_stats w vid = (Inr (Some vs), tr1) \<Longrightarrow>
   get_comments w vid = Some (Inr [], tr2) \<Longrightarrow>
   home w req rd =
     Some \<lparr>page = Inr (Index (initial_locals\<lparr>video_stats := Some vs\<rparr>)),
           report_data = rd, trace = tr1 @ tr2\<rparr>"
  by (simp add: home_def Let_def)

lemma home_analysis:
  "request_method req = ''POST'' \<Longrightarrow> extract_video_id (form_link req) = Inr (Some vid) \<Longrightarrow>
   vid \<noteq> [] \<Longrightarrow> get_video_stats w vid = (Inr (Some vs), tr1) \<Longrightarrow>
   get_comments w vid = Some (Inr cd, tr2) \<Longrightarrow> cd \<noteq> [] \<Longrightarrow>
   home w req rd =
     (case analysis w vs cd (initial_locals\<lparr>video_stats := Some vs\<rparr>) of
        (v, Inl e, tr3) \<Rightarrow> Some \<lparr>page = Inl e, report_data = rd, trace = tr1 @ tr2 @ tr3\<rparr>
      | (v, Inr written, tr3) \<Rightarrow>
          Some \<lparr>page = Inr (Index v), report_data = written, trace = tr1 @ tr2 @ tr3\<rparr>)"
  by (simp add: home_def Let_def)

lemma home_completes:
  assumes "request_method req = ''POST''"
      and "extract_video_id (form_link req) = Inr (Some vid)" and "vid \<noteq> []"
      and "get_video_stats w vid = (Inr (Some vs), tr1)"
      and "get_comments w vid = Some (Inr cd, tr2)" and "cd \<noteq> []"
      and "wordcloud_png w (cloud_text cd) = Inr img"
  shows "home w req rd =
     Some \<lparr>page = Inr (Index (fst (analysis w vs cd (initial_locals\<lparr>video_stats := Some vs\<rparr>)))),
           report_data =
             [(''video_stats'', Stats vs),
              (''positive'', Count (length [c\<leftarrow>cd. label_of w c = Positive])),
              (''negative'', Count (length [c\<leftarrow>cd. label_of w c = Negative])),
              (''neutral'', Count (length [c\<leftarrow>cd. label_of w c = Neutral])),
              (''wordcloud_image'', Bytes img)],
           trace = tr1 @ tr2 @
             concat (map (\<lambda>c. snd (analyze_sentiment w (fst c))) cd) @
             [WordCloud_generate (cloud_text cd)]\<rparr>"
proof -
  let ?start = "initial_locals\<lparr>video_stats := Some vs\<rparr>"
  obtain v x tr3 where a: "analysis w vs cd ?start = (v, x, tr3)"
    by (cases "analysis w vs cd ?start")
  from analysis_written [of w vs cd ?start] analysis_counts [of w vs cd "Some vs"] assms(7)
  have x: "x = Inr [(''video_stats'', Stats vs),
              (''positive'', Count (length [c\<leftarrow>cd. label_of w c = Positive])),
              (''negative'', Count (length [c\<leftarrow>cd. label_of w c = Negative])),
              (''neutral'', Count (length [c\<leftarrow>cd. label_of w c = Neutral])),
              (''wordcloud_image'', Bytes img)]"
    by (simp add: a)
  from analysis_trace [of w vs cd ?start]
  have tr3: "tr3 = concat (map (\<lambda>c. snd (analyze_sentiment w (fst c))) cd) @
      [WordCloud_generate (cloud_text cd)]"
    by (simp add: a)
  from home_analysis [OF assms(1-6), of rd] show ?thesis
    by (simp add: a x tr3)
qed

lemma home_cloud_raises:
  assumes "request_method req = ''POST''"
      and "extract_video_id (form_link req) = Inr (Some vid)" and "vid \<noteq> []"
      and "get_video_stats w vid = (Inr (Some vs), tr1)"
      and "get_comments w vid = Some (Inr cd, tr2)" and "cd \<noteq> []"
      and "wordcloud_png w (cloud_text cd) = Inl e"
  shows "home w req rd =
     Some \<lparr>page = Inl e, report_data = rd,
           trace = tr1 @ tr2 @
             concat (map (\<lambda>c. snd (analyze_sentiment w (fst c))) cd) @
             [WordCloud_generate (cloud_text cd)]\<rparr>"
proof -
  let ?start = "initial_locals\<lparr>video_stats := Some vs\<rparr>"
  obtain v x tr3 where a: "analysis w vs cd ?start = (v, x, tr3)"
    by (cases "analysis w vs cd ?start")
  from analysis_written [of w vs cd ?start] assms(7)
  have x: "x = Inl e" by (simp add: a)
  from analysis_trace [of w vs cd ?start]
  have tr3: "tr3 = concat (map (\<lambda>c. snd (analyze_sentiment w (fst c))) cd) @
      [WordCloud_generate (cloud_text cd)]"
    by (simp add: a)
  from home_analysis [OF assms(1-6), of rd] show ?thesis
    by (simp add: a x tr3)
qed

lemma home_store:
  "home w req rd = Some out \<Longrightarrow>
   report_data out = rd \<or> map fst (report_data out) = report_keys"
proof (cases "request_method req = ''POST''")
  case False
  assume "home w req rd = Some out"
  with False show ?thesis by (auto simp: home_get)
next
  case post: True
  assume h: "home w req rd = Some out"
  show ?thesis
  proof (cases "extract_video_id (form_link req)")
    case (Inl e)
    with post h show ?thesis by (auto simp: home_raises)
  next
    case (Inr x)
    show ?thesis
    proof (cases "x = None \<or> x = Some []")
      case True
      with post Inr h show ?thesis by (auto simp: home_invalid)
    next
      case False
      then obtain vid where x: "x = Some vid" and vid: "vid \<noteq> []" by (cases x) auto
      note link = Inr [unfolded x]
      obtain s tr1 where g: "get_video_stats w vid = (s, tr1)"
        by (cases "get_video_stats w vid")
      show ?thesis
      proof (cases s)
        case (Inl e)
        from home_stats_raise [OF post link vid g [unfolded Inl], of rd] h
        show ?thesis by auto
      next
        case stats: (Inr so)
        show ?thesis
        proof (cases so)
          case None
          from home_stats_none [OF post link vid g [unfolded stats None], of rd] h
          show ?thesis by auto
        next
          case (Some vs)
          note g' = g [unfolded stats Some]
          from post link vid g' h obtain res tr2 where
            c: "get_comments w vid = Some (res, tr2)"
            by (cases "get_comments w vid") (auto simp: home_def Let_def)
          show ?thesis
          proof (cases res)
            case (Inl e)
            from home_comments_raise [OF post link vid g' c [unfolded Inl], of rd] h
            show ?thesis by auto
          next
            case (Inr cd)
            note c' = c [unfolded Inr]
            show ?thesis
            proof (cases "cd = []")
              case True
              from home_no_comments [OF post link vid g' c' [unfolded True], of rd] h
              show ?thesis by auto
            next
              case False
              show ?thesis
              proof (cases "wordcloud_png w (cloud_text cd)")
                case (Inl e)
                from home_cloud_raises [OF post link vid g' c' False Inl, of rd] h
                show ?thesis by auto
              next
                case (Inr img)
                from home_completes [OF post link vid g' c' False Inr, of rd] h
                show ?thesis by (auto simp: report_keys_def)
              qed
            qed
          qed
        qed
      qed
    qed
  qed
qed

lemma while_pages_trace:
  "while_pages vid script tok cs tr = Some (res, tr') \<Longrightarrow>
   \<exists>toks. tr' = tr @ map (Comment_threads_list vid) toks"
proof (induction script arbitrary: tok cs tr)
  case Nil
  then show ?case by simp
next
  case (Cons r script)
  have last_only: ?case if "tr' = tr @ [Comment_threads_list vid tok]"
  proof -
    from that have "tr' = tr @ map (Comment_threads_list vid) [tok]" by simp
    then show ?thesis by (rule exI)
  qed
  show ?case
  proof (cases r)
    case HttpError
    with Cons.prems have "tr' = tr @ [Comment_threads_list vid tok]"
      by (simp add: Let_def)
    then show ?thesis by (rule last_only)
  next
    case (Raises e)
    with Cons.prems have "tr' = tr @ [Comment_threads_list vid tok]"
      by (simp add: Let_def)
    then show ?thesis by (rule last_only)
  next
    case (Returned q)
    show ?thesis
    proof (cases "for_items (page_items q) cs")
      case (Inl full)
      with Cons.prems Returned have "tr' = tr @ [Comment_threads_list vid tok]"
        by (simp add: Let_def)
      then show ?thesis by (rule last_only)
    next
      case (Inr cs')
      show ?thesis
      proof (cases "truthy (nextPageToken q)")
        case False
        with Cons.prems Returned Inr have "tr' = tr @ [Comment_threads_list vid tok]"
          by (simp add: Let_def)
        then show ?thesis by (rule last_only)
      next
        case True
        with Cons.prems Returned Inr have
          "while_pages vid script (nextPageToken q) cs' (tr @ [Comment_threads_list vid tok]) =
             Some (res, tr')"
          by (simp add: Let_def)
        from Cons.IH [OF this] obtain toks where
          "tr' = (tr @ [Comment_threads_list vid tok]) @ map (Comment_threads_list vid) toks"
          by blast
        then have "tr' = tr @ map (Comment_threads_list vid) (tok # toks)" by simp
        then show ?thesis by (rule exI)
      qed
    qed
  qed
qed

lemma get_comments_trace:
  "get_comments w vid = Some (res, tr) \<Longrightarrow> WordCloud_generate t \<notin> set tr"
proof -
  assume "get_comments w vid = Some (res, tr)"
  then obtain toks where "tr = [] @ map (Comment_threads_list vid) toks"
    unfolding get_comments_def by (blast dest: while_pages_trace)
  then show ?thesis by auto
qed

section \<open>The report store\<close>

text \<open>
  Claim C5. Read before any write, the store is the empty dict and the download route
  answers that no report is available. The only write is the assignment at the end of a
  run of \<open>home\<close> that gets that far: valid link, metadata found, at least one comment,
  and a word cloud generated. That write replaces the store by a dict built from this
  run alone, whatever the store held before; a read after it, the image being readable,
  returns the document of this run: its video statistics, its three counts and its
  word-cloud image, nothing carried over from an earlier write. When the generator
  raises instead, the exception leaves \<open>home\<close> before the assignment and the store is
  as it was.
\<close>

theorem report_store_replaced:
  "download_report w' initial_report_data = Inr No_report_available \<and>
   (request_method req = ''POST'' \<and> extract_video_id (form_link req) = Inr (Some vid) \<and>
    vid \<noteq> [] \<and> get_video_stats w vid = (Inr (Some vs), tr1) \<and>
    get_comments w vid = Some (Inr cd, tr2) \<and> cd \<noteq> [] \<and>
    wordcloud_png w (cloud_text cd) = Inr img \<longrightarrow>
      map_option report_data (home w req rd) =
        Some [(''video_stats'', Stats vs),
              (''positive'', Count (length [c\<leftarrow>cd. label_of w c = Positive])),
              (''negative'', Count (length [c\<leftarrow>cd. label_of w c = Negative])),
              (''neutral'', Count (length [c\<leftarrow>cd. label_of w c = Neutral])),
              (''wordcloud_image'', Bytes img)]) \<and>
   (request_method req = ''POST'' \<and> extract_video_id (form_link req) = Inr (Some vid) \<and>
    vid \<noteq> [] \<and> get_video_stats w vid = (Inr (Some vs), tr1) \<and>
    get_comments w vid = Some (Inr cd, tr2) \<and> cd \<noteq> [] \<and>
    wordcloud_png w (cloud_text cd) = Inr img \<and> readable_image w' img \<longrightarrow>
      map_option (download_report w' \<circ> report_data) (home w req rd) =
        Some (Inr (Pdf \<lparr>safe_title = html_escape (title vs),
                         shown_views = views vs,
                         shown_likes = likes vs,
                         shown_comments_count = comments_count vs,
                         shown_positive = Count (length [c\<leftarrow>cd. label_of w c = Positive]),
                         shown_negative = Count (length [c\<leftarrow>cd. label_of w c = Negative]),
                         shown_neutral = Count (length [c\<leftarrow>cd. label_of w c = Neutral]),
                         shown_image = Some img\<rparr>))) \<and>
   (request_method req = ''POST'' \<and> extract_video_id (form_link req) = Inr (Some vid) \<and>
    vid \<noteq> [] \<and> get_video_stats w vid = (Inr (Some vs), tr1) \<and>
    get_comments w vid = Some (Inr cd, tr2) \<and> cd \<noteq> [] \<and>
    wordcloud_png w (cloud_text cd) = Inl e \<longrightarrow>
      map_option page (home w req rd) = Some (Inl e) \<and>
      map_option report_data (home w req rd) = Some rd)"
proof (intro conjI impI)
  show "download_report w' initial_report_data = Inr No_report_available"
    by (simp add: download_report_def initial_report_data_def)
next
  assume "request_method req = ''POST'' \<and>
    extract_video_id (form_link req) = Inr (Some vid) \<and>
    vid \<noteq> [] \<and> get_video_stats w vid = (Inr (Some vs), tr1) \<and>
    get_comments w vid = Some (Inr cd, tr2) \<and> cd \<noteq> [] \<and>
    wordcloud_png w (cloud_text cd) = Inr img"
  then have "home w req rd =
     Some \<lparr>page = Inr (Index (fst (analysis w vs cd (initial_locals\<lparr>video_stats := Some vs\<rparr>)))),
           report_data =
             [(''video_stats'', Stats vs),
              (''positive'', Count (length [c\<leftarrow>cd. label_of w c = Positive])),
              (''negative'', Count (length [c\<leftarrow>cd. label_of w c = Negative])),
              (''neutral'', Count (length [c\<leftarrow>cd. label_of w c = Neutral])),
              (''wordcloud_image'', Bytes img)],
           trace = tr1 @ tr2 @
             concat (map (\<lambda>c. snd (analyze_sentiment w (fst c))) cd) @
             [WordCloud_generate (cloud_text cd)]\<rparr>"
    by (intro home_completes) auto
  then show "map_option report_data (home w req rd) =
        Some [(''video_stats'', Stats vs),
              (''positive'', Count (length [c\<leftarrow>cd. label_of w c = Positive])),
              (''negative'', Count (length [c\<leftarrow>cd. label_of w c = Negative])),
              (''neutral'', Count (length [c\<leftarrow>cd. label_of w c = Neutral])),
              (''wordcloud_image'', Bytes img)]"
    by simp
next
  assume h: "request_method req = ''POST'' \<and>
    extract_video_id (form_link req) = Inr (Some vid) \<and>
    vid \<noteq> [] \<and> get_video_stats w vid = (Inr (Some vs), tr1) \<and>
    get_comments w vid = Some (Inr cd, tr2) \<and> cd \<noteq> [] \<and>
    wordcloud_png w (cloud_text cd) = Inr img \<and> readable_image w' img"
  then have "home w req rd =
     Some \<lparr>page = Inr (Index (fst (analysis w vs cd (initial_locals\<lparr>video_stats := Some vs\<rparr>)))),
           report_data =
             [(''video_stats'', Stats vs),
              (''positive'', Count (length [c\<leftarrow>cd. label_of w c = Positive])),
              (''negative'', Count (length [c\<leftarrow>cd. label_of w c = Negative])),
              (''neutral'', Count (length [c\<leftarrow>cd. label_of w c = Neutral])),
              (''wordcloud_image'', Bytes img)],
           trace = tr1 @ tr2 @
             concat (map (\<lambda>c. snd (analyze_sentiment w (fst c))) cd) @
             [WordCloud_generate (cloud_text cd)]\<rparr>"
    by (intro home_completes) auto
  with h show "map_option (download_report w' \<circ> report_data) (home w req rd) =
        Some (Inr (Pdf \<lparr>safe_title = html_escape (title vs),
                         shown_views = views vs,
                         shown_likes = likes vs,
                         shown_comments_count = comments_count vs,
                         shown_positive = Count (length [c\<leftarrow>cd. label_of w c = Positive]),
                         shown_negative = Count (length [c\<leftarrow>cd. label_of w c = Negative]),
                         shown_neutral = Count (length [c\<leftarrow>cd. label_of w c = Neutral]),
                         shown_image = Some img\<rparr>))"
    by (simp add: download_report_def lookup_def image_block_def)
next
  assume "request_method req = ''POST'' \<and>
    extract_video_id (form_link req) = Inr (Some vid) \<and>
    vid \<noteq> [] \<and> get_video_stats w vid = (Inr (Some vs), tr1) \<and>
    get_comments w vid = Some (Inr cd, tr2) \<and> cd \<noteq> [] \<and>
    wordcloud_png w (cloud_text cd) = Inl e"
  then have run: "home w req rd =
     Some \<lparr>page = Inl e, report_data = rd,
           trace = tr1 @ tr2 @
             concat (map (\<lambda>c. snd (analyze_sentiment w (fst c))) cd) @
             [WordCloud_generate (cloud_text cd)]\<rparr>"
    by (intro home_cloud_raises) auto
  from run show "map_option page (home w req rd) = Some (Inl e)" by simp
  from run show "map_option report_data (home w req rd) = Some rd" by simp
qed

theorem report_store_replaced_witness:
  "map_option report_data
     (home (world_of one_video one_comment) (post (Some ''https://youtu.be/abc?t=1''))
        initial_report_data) =
     Some [(''video_stats'',
            Stats \<lparr>title = ''A & B'', views = 7, likes = 0, comments_count = 2\<rparr>),
           (''positive'', Count 1), (''negative'', Count 0), (''neutral'', Count 0),
           (''wordcloud_image'', Bytes [5])] \<and>
   map_option (download_report (world_of one_video two_comments) \<circ> report_data)
     (home (world_of one_video two_comments) (post (Some ''https://youtu.be/abc?t=1''))
        [(''video_stats'',
          Stats \<lparr>title = ''A & B'', views = 7, likes = 0, comments_count = 2\<rparr>),
         (''positive'', Count 1), (''negative'', Count 0), (''neutral'', Count 0),
         (''wordcloud_image'', Bytes [5])]) =
     Some (Inr (Pdf \<lparr>safe_title = ''A &amp; B'', shown_views = 7, shown_likes = 0,
                      shown_comments_count = 2, shown_positive = Count 0,
                      shown_negative = Count 1, shown_neutral = Count 1,
                      shown_image = Some [17]\<rparr>)) \<and>
   map_option page
     (home (world_of one_video no_word_comment) (post (Some ''https://youtu.be/abc?t=1''))
        [(''positive'', Count 3)]) = Some (Inl ValueError) \<and>
   map_option report_data
     (home (world_of one_video no_word_comment) (post (Some ''https://youtu.be/abc?t=1''))
        [(''positive'', Count 3)]) = Some [(''positive'', Count 3)]"
proof -
  let ?vs = "\<lparr>title = ''A & B'', views = 7, likes = 0, comments_count = 2\<rparr>"
  let ?link = "''https://youtu.be/abc?t=1''"
  note ev = post_def extract_video_id_def split.simps index_def get_video_stats_def
    world_of_def one_video_def get_comments_def one_comment_def two_comments_def
    no_word_comment_def Let_def
    page_items_def truthy_def item_comment_def MAX_COMMENTS_def liked_item_def plain_item_def
  note lab = label_of_def analyze_sentiment_def strip_def isspace_def upper_def upper_char_def
    cloud_text_def html_escape_def
  have a: "map_option report_data
     (home (world_of one_video one_comment) (post (Some ?link)) initial_report_data) =
     Some [(''video_stats'', Stats ?vs),
           (''positive'', Count 1), (''negative'', Count 0), (''neutral'', Count 0),
           (''wordcloud_image'', Bytes [5])]"
    using report_store_replaced
      [where req = "post (Some ?link)" and vid = "''abc''"
         and w = "world_of one_video one_comment" and vs = ?vs
         and ?tr1.0 = "[Videos_list ''abc'']" and cd = "[(''fine'', 0)]"
         and ?tr2.0 = "[Comment_threads_list ''abc'' None]" and img = "[5]"
         and rd = initial_report_data, THEN conjunct2, THEN conjunct1]
    by (simp add: ev lab)
  have b: "map_option (download_report (world_of one_video two_comments) \<circ> report_data)
     (home (world_of one_video two_comments) (post (Some ?link))
        [(''video_stats'', Stats ?vs),
         (''positive'', Count 1), (''negative'', Count 0), (''neutral'', Count 0),
         (''wordcloud_image'', Bytes [5])]) =
     Some (Inr (Pdf \<lparr>safe_title = ''A &amp; B'', shown_views = 7, shown_likes = 0,
                      shown_comments_count = 2, shown_positive = Count 0,
                      shown_negative = Count 1, shown_neutral = Count 1,
                      shown_image = Some [17]\<rparr>))"
    using report_store_replaced
      [where req = "post (Some ?link)" and vid = "''abc''"
         and w = "world_of one_video two_comments" and vs = ?vs
         and w' = "world_of one_video two_comments"
         and ?tr1.0 = "[Videos_list ''abc'']"
         and cd = "[(''<b>ok</b>'', 1), (''so bad'', 0)]"
         and ?tr2.0 = "[Comment_threads_list ''abc'' None]" and img = "[17]"
         and rd = "[(''video_stats'', Stats ?vs),
            (''positive'', Count 1), (''negative'', Count 0), (''neutral'', Count 0),
            (''wordcloud_image'', Bytes [5])]",
       THEN conjunct2, THEN conjunct2, THEN conjunct1]
    by (simp add: ev lab)
  have c: "map_option page
       (home (world_of one_video no_word_comment) (post (Some ?link))
          [(''positive'', Count 3)]) = Some (Inl ValueError) \<and>
     map_option report_data
       (home (world_of one_video no_word_comment) (post (Some ?link))
          [(''positive'', Count 3)]) = Some [(''positive'', Count 3)]"
    using report_store_replaced
      [where req = "post (Some ?link)" and vid = "''abc''"
         and w = "world_of one_video no_word_comment" and vs = ?vs
         and ?tr1.0 = "[Videos_list ''abc'']" and cd = "[(''!!!'', 0)]"
         and ?tr2.0 = "[Comment_threads_list ''abc'' None]" and e = ValueError
         and rd = "[(''positive'', Count 3)]",
       THEN conjunct2, THEN conjunct2, THEN conjunct2]
    by (simp add: ev lab)
  from a b c show ?thesis by (intro conjI) simp_all
qed

text \<open>
  Claim C8, evaluated on the code. For a form without the field \<open>link\<close>,
  \<open>extract_video_id\<close> receives \<open>None\<close> and the test \<open>"v=" in link\<close> raises TypeError,
  which leaves \<open>home\<close>; no invalid-link message is produced. No external call is made
  and the store is unchanged. For the empty string the function returns \<open>None\<close> and
  \<open>home\<close> reports the invalid link.
\<close>

theorem absent_link_raises:
  "extract_video_id None = Inl TypeError \<and>
   home w (post None) rd = Some \<lparr>page = Inl TypeError, report_data = rd, trace = []\<rparr> \<and>
   extract_video_id (Some []) = Inr None \<and>
   home w (post (Some [])) rd =
     Some \<lparr>page = Inr (Index (initial_locals\<lparr>error_message := ''Invalid YouTube Link!''\<rparr>)),
           report_data = rd, trace = []\<rparr>"
proof -
  have none: "extract_video_id None = Inl TypeError"
    and empty: "extract_video_id (Some []) = Inr None"
    by (simp_all add: extract_video_id_def)
  from none have "home w (post None) rd =
      Some \<lparr>page = Inl TypeError, report_data = rd, trace = []\<rparr>"
    by (intro home_raises) (simp_all add: post_def)
  moreover from empty have "home w (post (Some [])) rd =
     Some \<lparr>page = Inr (Index (initial_locals\<lparr>error_message := ''Invalid YouTube Link!''\<rparr>)),
           report_data = rd, trace = []\<rparr>"
    by (intro home_invalid) (simp_all add: post_def)
  ultimately show ?thesis using none empty by simp
qed

text \<open>
  Claim C9. When the link is invalid, \<open>home\<close> reports it, makes no external call
  and leaves \<open>report_data\<close> as it was. When the metadata request raises HttpError or
  returns no item, \<open>home\<close> reports that, has made the metadata request only, and leaves
  \<open>report_data\<close> as it was. After any run the store is either what it was before or a
  dict with all five keys of a completed analysis. When the metadata request raises
  another exception, that exception leaves \<open>home\<close>, again with the store as it was.
\<close>

theorem halted_run_keeps_store:
  "(request_method req = ''POST'' \<and>
    (extract_video_id (form_link req) = Inr None \<or>
     extract_video_id (form_link req) = Inr (Some [])) \<longrightarrow>
      home w req rd =
        Some \<lparr>page = Inr (Index (initial_locals\<lparr>error_message := ''Invalid YouTube Link!''\<rparr>)),
              report_data = rd, trace = []\<rparr>) \<and>
   (request_method req = ''POST'' \<and> extract_video_id (form_link req) = Inr (Some vid) \<and>
    vid \<noteq> [] \<and> (videos w vid = HttpError \<or> videos w vid = Returned []) \<longrightarrow>
      home w req rd =
        Some \<lparr>page = Inr (Index_error_only ''Unable to fetch video details.''),
              report_data = rd, trace = [Videos_list vid]\<rparr>) \<and>
   (home w req rd = Some out \<longrightarrow>
      report_data out = rd \<or> map fst (report_data out) = report_keys) \<and>
   (request_method req = ''POST'' \<and> extract_video_id (form_link req) = Inr (Some vid) \<and>
    vid \<noteq> [] \<and> videos w vid = Raises e \<longrightarrow>
      home w req rd = Some \<lparr>page = Inl e, report_data = rd, trace = [Videos_list vid]\<rparr>)"
proof (intro conjI impI)
  assume "request_method req = ''POST'' \<and>
    (extract_video_id (form_link req) = Inr None \<or>
     extract_video_id (form_link req) = Inr (Some []))"
  then show "home w req rd =
        Some \<lparr>page = Inr (Index (initial_locals\<lparr>error_message := ''Invalid YouTube Link!''\<rparr>)),
              report_data = rd, trace = []\<rparr>"
    by (intro home_invalid) auto
next
  assume "request_method req = ''POST'' \<and> extract_video_id (form_link req) = Inr (Some vid) \<and>
    vid \<noteq> [] \<and> (videos w vid = HttpError \<or> videos w vid = Returned [])"
  then show "home w req rd =
        Some \<lparr>page = Inr (Index_error_only ''Unable to fetch video details.''),
              report_data = rd, trace = [Videos_list vid]\<rparr>"
    by (intro home_no_stats) auto
next
  assume "home w req rd = Some out"
  then show "report_data out = rd \<or> map fst (report_data out) = report_keys"
    by (rule home_store)
next
  assume h: "request_method req = ''POST'' \<and>
    extract_video_id (form_link req) = Inr (Some vid) \<and>
    vid \<noteq> [] \<and> videos w vid = Raises e"
  then have "get_video_stats w vid = (Inl e, [Videos_list vid])"
    by (intro get_video_stats_raises) simp
  with h show "home w req rd =
      Some \<lparr>page = Inl e, report_data = rd, trace = [Videos_list vid]\<rparr>"
    by (intro home_stats_raise) auto
qed

theorem halted_run_keeps_store_witness:
  "home (world_of one_video two_comments) (post (Some ''nothing here''))
     [(''positive'', Count 3)] =
     Some \<lparr>page = Inr (Index (initial_locals\<lparr>error_message := ''Invalid YouTube Link!''\<rparr>)),
           report_data = [(''positive'', Count 3)], trace = []\<rparr> \<and>
   home (world_of HttpError two_comments) (post (Some ''https://youtu.be/abc?t=1''))
     [(''positive'', Count 3)] =
     Some \<lparr>page = Inr (Index_error_only ''Unable to fetch video details.''),
           report_data = [(''positive'', Count 3)], trace = [Videos_list ''abc'']\<rparr> \<and>
   home (world_of (Returned []) two_comments) (post (Some ''https://youtu.be/abc?t=1''))
     [(''positive'', Count 3)] =
     Some \<lparr>page = Inr (Index_error_only ''Unable to fetch video details.''),
           report_data = [(''positive'', Count 3)], trace = [Videos_list ''abc'']\<rparr> \<and>
   (report_data \<lparr>page = Inr (Index_error_only ''Unable to fetch video details.''),
                report_data = [(''positive'', Count 3)], trace = [Videos_list ''abc'']\<rparr> =
      [(''positive'', Count 3)] \<or>
    map fst (report_data \<lparr>page = Inr (Index_error_only ''Unable to fetch video details.''),
                         report_data = [(''positive'', Count 3)],
                         trace = [Videos_list ''abc'']\<rparr>) = report_keys) \<and>
   home (world_of (Raises TimeoutError) two_comments)
     (post (Some ''https://youtu.be/abc?t=1'')) [(''positive'', Count 3)] =
     Some \<lparr>page = Inl TimeoutError, report_data = [(''positive'', Count 3)],
           trace = [Videos_list ''abc'']\<rparr>"
proof -
  note ev = post_def extract_video_id_def split.simps index_def world_of_def
  have a: "home (world_of one_video two_comments) (post (Some ''nothing here''))
     [(''positive'', Count 3)] =
     Some \<lparr>page = Inr (Index (initial_locals\<lparr>error_message := ''Invalid YouTube Link!''\<rparr>)),
           report_data = [(''positive'', Count 3)], trace = []\<rparr>"
    using halted_run_keeps_store
      [of "post (Some ''nothing here'')" "world_of one_video two_comments"
          "[(''positive'', Count 3)]", THEN conjunct1]
    by (simp add: ev)
  have b: "home (world_of HttpError two_comments) (post (Some ''https://youtu.be/abc?t=1''))
     [(''positive'', Count 3)] =
     Some \<lparr>page = Inr (Index_error_only ''Unable to fetch video details.''),
           report_data = [(''positive'', Count 3)], trace = [Videos_list ''abc'']\<rparr>"
    using halted_run_keeps_store
      [where req = "post (Some ''https://youtu.be/abc?t=1'')" and vid = "''abc''"
         and w = "world_of HttpError two_comments" and rd = "[(''positive'', Count 3)]",
       THEN conjunct2, THEN conjunct1]
    by (simp add: ev)
  have c: "home (world_of (Returned []) two_comments) (post (Some ''https://youtu.be/abc?t=1''))
     [(''positive'', Count 3)] =
     Some \<lparr>page = Inr (Index_error_only ''Unable to fetch video details.''),
           report_data = [(''positive'', Count 3)], trace = [Videos_list ''abc'']\<rparr>"
    using halted_run_keeps_store
      [where req = "post (Some ''https://youtu.be/abc?t=1'')" and vid = "''abc''"
         and w = "world_of (Returned []) two_comments" and rd = "[(''positive'', Count 3)]",
       THEN conjunct2, THEN conjunct1]
    by (simp add: ev)
  note d = halted_run_keeps_store
      [where req = "post (Some ''https://youtu.be/abc?t=1'')"
         and w = "world_of (Returned []) two_comments" and rd = "[(''positive'', Count 3)]",
       THEN conjunct2, THEN conjunct2, THEN conjunct1, rule_format, OF c]
  have e: "home (world_of (Raises TimeoutError) two_comments)
     (post (Some ''https://youtu.be/abc?t=1'')) [(''positive'', Count 3)] =
     Some \<lparr>page = Inl TimeoutError, report_data = [(''positive'', Count 3)],
           trace = [Videos_list ''abc'']\<rparr>"
    using halted_run_keeps_store
      [where req = "post (Some ''https://youtu.be/abc?t=1'')" and vid = "''abc''"
         and w = "world_of (Raises TimeoutError) two_comments"
         and rd = "[(''positive'', Count 3)]" and e = TimeoutError,
       THEN conjunct2, THEN conjunct2, THEN conjunct2]
    by (simp add: ev)
  from a b c d e show ?thesis by (intro conjI)
qed

text \<open>
  Claim C10. When comment collection returns no comment, \<open>home\<close> completes with the
  three counts 0 and empty buckets, leaves \<open>report_data\<close> as it was, and has not called
  the word-cloud generator; a later read of the report gives what a read before the run
  would have given. This is also what happens when a comment request raises HttpError,
  after pages that each carried a next-page token and together held fewer than 20
  comments.
\<close>

theorem empty_collection_writes_nothing:
  "(request_method req = ''POST'' \<and> extract_video_id (form_link req) = Inr (Some vid) \<and>
    vid \<noteq> [] \<and> get_video_stats w vid = (Inr (Some vs), tr1) \<and>
    get_comments w vid = Some (Inr [], tr2) \<longrightarrow>
      home w req rd =
        Some \<lparr>page = Inr (Index \<lparr>positive = 0, negative = 0, neutral = 0,
                                   positive_comments = [], negative_comments = [],
                                   neutral_comments = [], top_liked_comments = [],
                                   video_stats = Some vs, error_message = []\<rparr>),
              report_data = rd, trace = tr1 @ tr2\<rparr> \<and>
      WordCloud_generate t \<notin> set (tr1 @ tr2) \<and>
      map_option (download_report w' \<circ> report_data) (home w req rd) =
        Some (download_report w' rd)) \<and>
   (request_method req = ''POST'' \<and> extract_video_id (form_link req) = Inr (Some vid) \<and>
    vid \<noteq> [] \<and> get_video_stats w vid = (Inr (Some vs), tr1) \<and>
    commentThreads w vid = ps @ HttpError # rest \<and> (\<forall>r\<in>set ps. has_next r) \<and>
    length (concat (map page_comments ps)) < MAX_COMMENTS \<longrightarrow>
      home w req rd =
        Some \<lparr>page = Inr (Index \<lparr>positive = 0, negative = 0, neutral = 0,
                                   positive_comments = [], negative_comments = [],
                                   neutral_comments = [], top_liked_comments = [],
                                   video_stats = Some vs, error_message = []\<rparr>),
              report_data = rd,
              trace = tr1 @ map (Comment_threads_list vid) (None # map next_token ps)\<rparr>)"
proof (intro conjI impI)
  assume h: "request_method req = ''POST'' \<and>
    extract_video_id (form_link req) = Inr (Some vid) \<and>
    vid \<noteq> [] \<and> get_video_stats w vid = (Inr (Some vs), tr1) \<and>
    get_comments w vid = Some (Inr [], tr2)"
  then have "home w req rd =
     Some \<lparr>page = Inr (Index (initial_locals\<lparr>video_stats := Some vs\<rparr>)),
           report_data = rd, trace = tr1 @ tr2\<rparr>"
    by (intro home_no_comments) auto
  then show run: "home w req rd =
        Some \<lparr>page = Inr (Index \<lparr>positive = 0, negative = 0, neutral = 0,
                                   positive_comments = [], negative_comments = [],
                                   neutral_comments = [], top_liked_comments = [],
                                   video_stats = Some vs, error_message = []\<rparr>),
              report_data = rd, trace = tr1 @ tr2\<rparr>"
    by (simp add: initial_locals_def)
  from h have "tr1 = [Videos_list vid]"
    using get_video_stats_trace [of w vid] by simp
  moreover from h have "WordCloud_generate t \<notin> set tr2"
    by (intro get_comments_trace [of w vid "Inr []"]) simp
  ultimately show "WordCloud_generate t \<notin> set (tr1 @ tr2)" by simp
  from run show "map_option (download_report w' \<circ> report_data) (home w req rd) =
        Some (download_report w' rd)"
    by simp
next
  assume h: "request_method req = ''POST'' \<and>
    extract_video_id (form_link req) = Inr (Some vid) \<and>
    vid \<noteq> [] \<and> get_video_stats w vid = (Inr (Some vs), tr1) \<and>
    commentThreads w vid = ps @ HttpError # rest \<and> (\<forall>r\<in>set ps. has_next r) \<and>
    length (concat (map page_comments ps)) < MAX_COMMENTS"
  then have "while_pages vid (ps @ HttpError # rest) None [] [] =
      Some (Inr [], [] @ map (Comment_threads_list vid) (None # map next_token ps))"
    by (intro while_pages_fault) auto
  with h have "get_comments w vid =
      Some (Inr [], map (Comment_threads_list vid) (None # map next_token ps))"
    by (simp add: get_comments_def)
  with h have "home w req rd =
     Some \<lparr>page = Inr (Index (initial_locals\<lparr>video_stats := Some vs\<rparr>)),
           report_data = rd,
           trace = tr1 @ map (Comment_threads_list vid) (None # map next_token ps)\<rparr>"
    by (intro home_no_comments) auto
  then show "home w req rd =
        Some \<lparr>page = Inr (Index \<lparr>positive = 0, negative = 0, neutral = 0,
                                   positive_comments = [], negative_comments = [],
                                   neutral_comments = [], top_liked_comments = [],
                                   video_stats = Some vs, error_message = []\<rparr>),
              report_data = rd,
              trace = tr1 @ map (Comment_threads_list vid) (None # map next_token ps)\<rparr>"
    by (simp add: initial_locals_def)
qed

theorem empty_collection_writes_nothing_witness:
  "home (world_of one_video [Returned \<lparr>items = None, nextPageToken = None\<rparr>])
     (post (Some ''https://youtu.be/abc?t=1'')) [(''positive'', Count 3)] =
     Some \<lparr>page = Inr (Index \<lparr>positive = 0, negative = 0, neutral = 0,
                                positive_comments = [], negative_comments = [],
                                neutral_comments = [], top_liked_comments = [],
                                video_stats =
                                  Some \<lparr>title = ''A & B'', views = 7, likes = 0,
                                        comments_count = 2\<rparr>,
                                error_message = []\<rparr>),
           report_data = [(''positive'', Count 3)],
           trace = [Videos_list ''abc'', Comment_threads_list ''abc'' None]\<rparr> \<and>
   home (world_of one_video faulting_script)
     (post (Some ''https://youtu.be/abc?t=1'')) [(''positive'', Count 3)] =
     Some \<lparr>page = Inr (Index \<lparr>positive = 0, negative = 0, neutral = 0,
                                positive_comments = [], negative_comments = [],
                                neutral_comments = [], top_liked_comments = [],
                                video_stats =
                                  Some \<lparr>title = ''A & B'', views = 7, likes = 0,
                                        comments_count = 2\<rparr>,
                                error_message = []\<rparr>),
           report_data = [(''positive'', Count 3)],
           trace = [Videos_list ''abc'', Comment_threads_list ''abc'' None,
                    Comment_threads_list ''abc'' (Some ''T1'')]\<rparr>"
proof -
  let ?vs = "\<lparr>title = ''A & B'', views = 7, likes = 0, comments_count = 2\<rparr>"
  let ?link = "''https://youtu.be/abc?t=1''"
  note ev = post_def extract_video_id_def split.simps index_def get_video_stats_def
    world_of_def one_video_def get_comments_def faulting_script_def Let_def
    page_items_def truthy_def item_comment_def MAX_COMMENTS_def liked_item_def plain_item_def
    page_comments_simps has_next_simps next_token_simps
  have a: "home (world_of one_video [Returned \<lparr>items = None, nextPageToken = None\<rparr>])
     (post (Some ?link)) [(''positive'', Count 3)] =
     Some \<lparr>page = Inr (Index \<lparr>positive = 0, negative = 0, neutral = 0,
                                positive_comments = [], negative_comments = [],
                                neutral_comments = [], top_liked_comments = [],
                                video_stats = Some ?vs, error_message = []\<rparr>),
           report_data = [(''positive'', Count 3)],
           trace = [Videos_list ''abc''] @ [Comment_threads_list ''abc'' None]\<rparr>"
    using empty_collection_writes_nothing
      [where req = "post (Some ?link)" and vid = "''abc''" and vs = ?vs
         and w = "world_of one_video [Returned \<lparr>items = None, nextPageToken = None\<rparr>]"
         and ?tr1.0 = "[Videos_list ''abc'']" and ?tr2.0 = "[Comment_threads_list ''abc'' None]"
         and rd = "[(''positive'', Count 3)]", THEN conjunct1]
    by (simp add: ev)
  have b: "home (world_of one_video faulting_script)
     (post (Some ?link)) [(''positive'', Count 3)] =
     Some \<lparr>page = Inr (Index \<lparr>positive = 0, negative = 0, neutral = 0,
                                positive_comments = [], negative_comments = [],
                                neutral_comments = [], top_liked_comments = [],
                                video_stats = Some ?vs, error_message = []\<rparr>),
           report_data = [(''positive'', Count 3)],
           trace = [Videos_list ''abc''] @ map (Comment_threads_list ''abc'')
             (None # map next_token
                [Returned \<lparr>items = Some [liked_item ''nice'' 3],
                           nextPageToken = Some ''T1''\<rparr>])\<rparr>"
    using empty_collection_writes_nothing
      [where req = "post (Some ?link)" and vid = "''abc''" and vs = ?vs
         and w = "world_of one_video faulting_script"
         and ?tr1.0 = "[Videos_list ''abc'']"
         and ps = "[Returned \<lparr>items = Some [liked_item ''nice'' 3],
                             nextPageToken = Some ''T1''\<rparr>]"
         and rest = "[Returned \<lparr>items = Some [plain_item ''late''], nextPageToken = None\<rparr>]"
         and rd = "[(''positive'', Count 3)]", THEN conjunct2]
    by (simp add: ev)
  from a b show ?thesis by (simp add: ev)
qed

section \<open>Identifier extraction\<close>

lemma find_sep_None_iff: "find_sep sep s = None \<longleftrightarrow> \<not> contains sep s"
  by (induction s) (auto split: option.splits)

lemma find_sep_decomp: "find_sep sep s = Some (p, r) \<Longrightarrow> s = p @ sep @ r"
proof (induction s arbitrary: p r)
  case Nil
  then show ?case by (auto split: if_splits)
next
  case (Cons c cs)
  show ?case
  proof (cases "prefix sep (c # cs)")
    case True
    with Cons.prems have "p = []" and "r = drop (length sep) (c # cs)" by auto
    moreover from True obtain q where q: "c # cs = sep @ q" by (auto simp: prefix_def)
    then have "drop (length sep) (c # cs) = q" by simp
    ultimately show ?thesis using q by simp
  next
    case False
    with Cons.prems obtain p' where f: "find_sep sep cs = Some (p', r)" and p: "p = c # p'"
      by (auto split: option.splits)
    from Cons.IH [OF f] p show ?thesis by simp
  qed
qed

lemma find_sep_leftmost:
  "find_sep sep s = Some (p, r) \<Longrightarrow> s = p' @ sep @ r' \<Longrightarrow> length p \<le> length p'"
proof (induction s arbitrary: p r p')
  case Nil
  then show ?case by (auto split: if_splits)
next
  case (Cons c cs)
  show ?case
  proof (cases "prefix sep (c # cs)")
    case True
    with Cons.prems(1) show ?thesis by auto
  next
    case False
    with Cons.prems(1) obtain q where f: "find_sep sep cs = Some (q, r)" and p: "p = c # q"
      by (auto split: option.splits)
    from False Cons.prems(2) have "p' \<noteq> []" by (auto simp: prefix_def)
    then obtain a p'' where p': "p' = a # p''" by (cases p') auto
    with Cons.prems(2) have "cs = p'' @ sep @ r'" by simp
    from Cons.IH [OF f this] p p' show ?thesis by simp
  qed
qed

lemma contains_decomp: "contains sep s \<Longrightarrow> s = before_sep sep s @ sep @ after_sep sep s"
proof -
  assume "contains sep s"
  then obtain p r where f: "find_sep sep s = Some (p, r)"
    using find_sep_None_iff [of sep s] by (cases "find_sep sep s") auto
  from find_sep_decomp [OF f] f show ?thesis by (simp add: before_sep_def after_sep_def)
qed

lemma before_sep_leftmost: "s = p @ sep @ r \<Longrightarrow> length (before_sep sep s) \<le> length p"
proof -
  assume s: "s = p @ sep @ r"
  then have "contains sep s" by (auto simp: contains_iff)
  then obtain p0 r0 where f: "find_sep sep s = Some (p0, r0)"
    using find_sep_None_iff [of sep s] by (cases "find_sep sep s") auto
  from find_sep_leftmost [OF f s] f show ?thesis by (simp add: before_sep_def)
qed

lemma hd_split: "sep \<noteq> [] \<Longrightarrow> index (split sep s) 0 = Inr (before_sep sep s)"
  by (subst split.simps) (simp add: index_def before_sep_def split: option.splits)

lemma split_second:
  assumes "sep \<noteq> []" and "contains sep s"
  shows "index (split sep s) 1 = Inr (before_sep sep (after_sep sep s))"
proof -
  from assms(2) obtain p r where f: "find_sep sep s = Some (p, r)"
    using find_sep_None_iff [of sep s] by (cases "find_sep sep s") auto
  with assms(1) have s: "split sep s = p # split sep r" by (subst split.simps) simp
  from hd_split [OF assms(1), of r] obtain x xs where r: "split sep r = x # xs"
    and x: "x = before_sep sep r"
    by (cases "split sep r") (auto simp: index_def split: if_splits)
  from s r x f show ?thesis by (simp add: index_def after_sep_def)
qed

lemma before_sep_char: "before_sep [d] s = takeWhile (\<lambda>c. c \<noteq> d) s"
proof -
  have "(case find_sep [d] s of None \<Rightarrow> s | Some (p, r) \<Rightarrow> p) = takeWhile (\<lambda>c. c \<noteq> d) s"
    by (induction s) (auto split: option.splits)
  then show ?thesis by (simp add: before_sep_def)
qed

lemma extract_by_marker:
  assumes "m \<noteq> []" and "contains m l"
  shows "bind_err (index (split m l) 1) (\<lambda>a. bind_err (index (split [d] a) 0) (\<lambda>b. Inr (Some b))) =
         Inr (Some (takeWhile (\<lambda>c. c \<noteq> d) (before_sep m (after_sep m l))))"
  unfolding split_second [OF assms] by (simp add: hd_split before_sep_char)

lemma takeWhile_before_sep:
  assumes "d \<notin> set m" and "\<not> contains m (takeWhile (\<lambda>c. c \<noteq> d) x)"
  shows "takeWhile (\<lambda>c. c \<noteq> d) (before_sep m x) = takeWhile (\<lambda>c. c \<noteq> d) x"
proof (cases "find_sep m x")
  case None
  then show ?thesis by (simp add: before_sep_def)
next
  case (Some pr)
  then obtain p r where f: "find_sep m x = Some (p, r)" by (cases pr) auto
  from find_sep_decomp [OF f] have x: "x = p @ m @ r" .
  have "d \<in> set p"
  proof (rule ccontr)
    assume "d \<notin> set p"
    then have "takeWhile (\<lambda>c. c \<noteq> d) (p @ m @ r) = p @ takeWhile (\<lambda>c. c \<noteq> d) (m @ r)"
      by (intro takeWhile_append2) auto
    also from assms(1) have "takeWhile (\<lambda>c. c \<noteq> d) (m @ r) = m @ takeWhile (\<lambda>c. c \<noteq> d) r"
      by (intro takeWhile_append2) auto
    finally have "takeWhile (\<lambda>c. c \<noteq> d) x = p @ m @ takeWhile (\<lambda>c. c \<noteq> d) r"
      by (simp add: x)
    then have "contains m (takeWhile (\<lambda>c. c \<noteq> d) x)" by (auto simp: contains_iff)
    with assms(2) show False by simp
  qed
  then have "takeWhile (\<lambda>c. c \<noteq> d) (p @ m @ r) = takeWhile (\<lambda>c. c \<noteq> d) p"
    by (intro takeWhile_append1 [where x = d]) auto
  with f x show ?thesis by (simp add: before_sep_def)
qed

text \<open>
  Claim C7, as stated: for the first shape that matches, the result is the text after
  the marker up to the next delimiter. It is not when the marker occurs again before the
  delimiter: \<open>split\<close> cuts at every occurrence of the marker, and the segment taken is
  the one between the first two.
\<close>

theorem extract_video_id_counterexample:
  "contains ''v='' ''https://www.youtube.com/watch?v=abcv=def&t=1'' \<and>
   takeWhile (\<lambda>c. c \<noteq> CHR ''&'')
     (after_sep ''v='' ''https://www.youtube.com/watch?v=abcv=def&t=1'') = ''abcv=def'' \<and>
   extract_video_id (Some ''https://www.youtube.com/watch?v=abcv=def&t=1'') =
     Inr (Some ''abc'')"
  by (simp add: extract_video_id_def split.simps index_def after_sep_def)

text \<open>
  Claim C7, amended. The three markers are tested in the order \<open>v=\<close>, \<open>youtu.be/\<close>,
  \<open>shorts/\<close>. For the first one that occurs, the result is the text after its leftmost
  occurrence, up to the next delimiter (\<open>&\<close> for \<open>v=\<close>, \<open>?\<close> for the other two) or the
  next occurrence of the same marker, whichever comes first. When none occurs the result
  is \<open>None\<close>. Here a marker occurs in a link when the link is some text, the marker,
  some text; \<open>before_sep\<close> and \<open>after_sep\<close> split the link at the leftmost occurrence;
  and when the marker does not occur again before the delimiter, the result is the text
  up to the delimiter, as the claim has it.
\<close>

theorem extract_video_id_shapes:
  "(contains ''v='' l \<longrightarrow>
      extract_video_id (Some l) =
        Inr (Some (takeWhile (\<lambda>c. c \<noteq> CHR ''&'') (before_sep ''v='' (after_sep ''v='' l))))) \<and>
   (\<not> contains ''v='' l \<and> contains ''youtu.be/'' l \<longrightarrow>
      extract_video_id (Some l) =
        Inr (Some (takeWhile (\<lambda>c. c \<noteq> CHR ''?'')
                     (before_sep ''youtu.be/'' (after_sep ''youtu.be/'' l))))) \<and>
   (\<not> contains ''v='' l \<and> \<not> contains ''youtu.be/'' l \<and> contains ''shorts/'' l \<longrightarrow>
      extract_video_id (Some l) =
        Inr (Some (takeWhile (\<lambda>c. c \<noteq> CHR ''?'')
                     (before_sep ''shorts/'' (after_sep ''shorts/'' l))))) \<and>
   (\<not> contains ''v='' l \<and> \<not> contains ''youtu.be/'' l \<and> \<not> contains ''shorts/'' l \<longrightarrow>
      extract_video_id (Some l) = Inr None) \<and>
   (contains m l \<longleftrightarrow> (\<exists>p r. l = p @ m @ r)) \<and>
   (contains m l \<longrightarrow> l = before_sep m l @ m @ after_sep m l) \<and>
   (l = p @ m @ r \<longrightarrow> length (before_sep m l) \<le> length p) \<and>
   (d \<notin> set m \<and> \<not> contains m (takeWhile (\<lambda>c. c \<noteq> d) x) \<longrightarrow>
      takeWhile (\<lambda>c. c \<noteq> d) (before_sep m x) = takeWhile (\<lambda>c. c \<noteq> d) x)"
proof (intro conjI impI)
  assume "contains ''v='' l"
  then show "extract_video_id (Some l) =
        Inr (Some (takeWhile (\<lambda>c. c \<noteq> CHR ''&'') (before_sep ''v='' (after_sep ''v='' l))))"
    by (simp add: extract_video_id_def extract_by_marker [unfolded One_nat_def])
next
  assume "\<not> contains ''v='' l \<and> contains ''youtu.be/'' l"
  then show "extract_video_id (Some l) =
        Inr (Some (takeWhile (\<lambda>c. c \<noteq> CHR ''?'')
                     (before_sep ''youtu.be/'' (after_sep ''youtu.be/'' l))))"
    by (simp add: extract_video_id_def extract_by_marker [unfolded One_nat_def])
next
  assume "\<not> contains ''v='' l \<and> \<not> contains ''youtu.be/'' l \<and> contains ''shorts/'' l"
  then show "extract_video_id (Some l) =
        Inr (Some (takeWhile (\<lambda>c. c \<noteq> CHR ''?'')
                     (before_sep ''shorts/'' (after_sep ''shorts/'' l))))"
    by (simp add: extract_video_id_def extract_by_marker [unfolded One_nat_def])
next
  assume "\<not> contains ''v='' l \<and> \<not> contains ''youtu.be/'' l \<and> \<not> contains ''shorts/'' l"
  then show "extract_video_id (Some l) = Inr None"
    by (simp add: extract_video_id_def)
next
  show "contains m l \<longleftrightarrow> (\<exists>p r. l = p @ m @ r)" by (rule contains_iff)
next
  assume "contains m l"
  then show "l = before_sep m l @ m @ after_sep m l" by (rule contains_decomp)
next
  assume "l = p @ m @ r"
  then show "length (before_sep m l) \<le> length p" by (rule before_sep_leftmost)
next
  assume "d \<notin> set m \<and> \<not> contains m (takeWhile (\<lambda>c. c \<noteq> d) x)"
  then show "takeWhile (\<lambda>c. c \<noteq> d) (before_sep m x) = takeWhile (\<lambda>c. c \<noteq> d) x"
    by (intro takeWhile_before_sep) auto
qed

theorem extract_video_id_shapes_witness:
  "extract_video_id (Some ''https://www.youtube.com/watch?v=ABC123&t=5s'') =
     Inr (Some ''ABC123'') \<and>
   extract_video_id (Some ''https://youtu.be/abc?t=1'') = Inr (Some ''abc'') \<and>
   extract_video_id (Some ''https://www.youtube.com/shorts/xyz?feature=share'') =
     Inr (Some ''xyz'') \<and>
   extract_video_id (Some ''nothing here'') = Inr None \<and>
   ''k=1&v=ab'' = ''k=1&'' @ ''v='' @ ''ab'' \<and>
   length (before_sep ''v='' ''k=1&v=ab'') \<le> length ''k=1&'' \<and>
   takeWhile (\<lambda>c. c \<noteq> CHR ''&'') (before_sep ''v='' ''ab&v=c'') = ''ab''"
proof -
  note ev = before_sep_def after_sep_def
  have a: "extract_video_id (Some ''https://www.youtube.com/watch?v=ABC123&t=5s'') =
     Inr (Some ''ABC123'')"
    using extract_video_id_shapes
      [where l = "''https://www.youtube.com/watch?v=ABC123&t=5s''", THEN conjunct1]
    by (simp add: ev)
  have b: "extract_video_id (Some ''https://youtu.be/abc?t=1'') = Inr (Some ''abc'')"
    using extract_video_id_shapes
      [where l = "''https://youtu.be/abc?t=1''", THEN conjunct2, THEN conjunct1]
    by (simp add: ev)
  have c: "extract_video_id (Some ''https://www.youtube.com/shorts/xyz?feature=share'') =
     Inr (Some ''xyz'')"
    using extract_video_id_shapes
      [where l = "''https://www.youtube.com/shorts/xyz?feature=share''",
       THEN conjunct2, THEN conjunct2, THEN conjunct1]
    by (simp add: ev)
  have d: "extract_video_id (Some ''nothing here'') = Inr None"
    using extract_video_id_shapes
      [where l = "''nothing here''", THEN conjunct2, THEN conjunct2, THEN conjunct2,
       THEN conjunct1]
    by simp
  have e: "''k=1&v=ab'' = ''k=1&'' @ ''v='' @ ''ab''"
    using extract_video_id_shapes
      [where l = "''k=1&v=ab''" and m = "''v=''", THEN conjunct2, THEN conjunct2,
       THEN conjunct2, THEN conjunct2, THEN conjunct2, THEN conjunct1]
    by (simp add: ev)
  have f: "length (before_sep ''v='' ''k=1&v=ab'') \<le> length ''k=1&''"
    using extract_video_id_shapes
      [where l = "''k=1&v=ab''" and m = "''v=''" and p = "''k=1&''" and r = "''ab''",
       THEN conjunct2, THEN conjunct2, THEN conjunct2, THEN conjunct2, THEN conjunct2,
       THEN conjunct2, THEN conjunct1]
    by simp
  have g: "takeWhile (\<lambda>c. c \<noteq> CHR ''&'') (before_sep ''v='' ''ab&v=c'') = ''ab''"
    using extract_video_id_shapes
      [where m = "''v=''" and d = "CHR ''&''" and x = "''ab&v=c''",
       THEN conjunct2, THEN conjunct2, THEN conjunct2, THEN conjunct2, THEN conjunct2,
       THEN conjunct2, THEN conjunct2]
    by simp
  from a b c d e f g show ?thesis by (intro conjI)
qed

end
